theory Spec2Isabelle
  imports Complex_Main "HOL-Library.Product_Lexorder"
begin

section \<open>Colocations.py: data model\<close>

text \<open>
  A row of \<open>self.data\<close>: the five columns kept by the constructor plus the column
  added by \<open>add_short_range_communication_area\<close>. The float64 columns (type \<open>'f\<close>) and
  the geometry column (type \<open>'g\<close>) are carried by the splitting and the aggregation and
  never computed on there, so they stay abstract in the record; only
  \<open>add_short_range_communication_area\<close> reads the coordinates, as reals.
  \<open>sampletimestamp\<close> is the integer number of seconds produced by
  \<open>from_datetime_to_timestamp\<close>, a numpy int64.
\<close>

record ('f, 'g) trace =
  user_id :: int
  latitude :: 'f
  longitude :: 'f
  sampletimestamp :: int
  accuracy :: 'f
  short_range_communication_area :: 'g

text \<open>A row of the per-partition intersections dataframe (\<open>get_intersections\<close>).\<close>

record intersection =
  uid_1 :: int
  timestamp_uid_1 :: int
  uid_2 :: int
  timestamp_uid_2 :: int

text \<open>A row of the co-locations dataframe (\<open>get_colocations\<close>).\<close>

record colocation =
  node_1 :: int
  node_2 :: int
  timestamp :: int
  connection :: string

text \<open>The exceptions raised by \<open>int()\<close> on a float that is NaN or infinite.\<close>

datatype error = ValueError | OverflowError

section \<open>Library operations used by the code\<close>

text \<open>
  \<open>Series.unique()\<close>: the distinct values in order of first appearance
  (\<open>remdups\<close> would keep the last occurrence instead).
\<close>

fun unique :: "'a list \<Rightarrow> 'a list" where
  "unique [] = []"
| "unique (x # xs) = x # unique (filter (\<lambda>y. y \<noteq> x) xs)"

text \<open>
  \<open>list(set(...))\<close> is not determined by the source: the iteration order of a Python
  set is the order of its hash table. The functions below take it as a parameter
  \<open>to_list\<close>; what the language guarantees of it is \<open>set_iteration\<close>: every element
  once, and no others.
\<close>

definition set_iteration :: "('a list \<Rightarrow> 'a list) \<Rightarrow> bool" where
  "set_iteration to_list \<longleftrightarrow> (\<forall>xs. distinct (to_list xs) \<and> set (to_list xs) = set xs)"

section \<open>users_mapping\<close>

text \<open>
  \<open>map_uid = dict(zip(users, np.arange(0, len(users))))\<close>, as an association list, and
  \<open>DataFrame.replace\<close> of the column \<open>user_id\<close> by it: every value that is a key is
  replaced by its image, all values at once; a value that is no key stays.
\<close>

definition map_uid :: "int list \<Rightarrow> (int \<times> int) list" where
  "map_uid users = zip users (map int [0..<length users])"

definition replace_user_id :: "(int \<times> int) list \<Rightarrow> ('f, 'g) trace \<Rightarrow> ('f, 'g) trace" where
  "replace_user_id m r =
     (case map_of m (user_id r) of None \<Rightarrow> r | Some v \<Rightarrow> r\<lparr>user_id := v\<rparr>)"

definition users_mapping :: "('f, 'g) trace list \<Rightarrow> ('f, 'g) trace list" where
  "users_mapping data =
     (let users = unique (map user_id data)
      in map (replace_user_id (map_uid users)) data)"

section \<open>add_short_range_communication_area\<close>

text \<open>
  The geometry library is not part of the repository. Its two operations are modelled
  from the library's documentation, over the reals (the rounding of coordinates is not
  modelled). A point is the complex number \<open>x + iy\<close>; \<open>points_from_xy(latitude, longitude)\<close>
  takes the latitude as \<open>x\<close> and the longitude as \<open>y\<close>.

  \<open>buffer(r)\<close> of a point, at the default resolution of 16 segments to a quarter circle,
  is a polygon of 64 vertices on the circle of radius \<open>r\<close> about the point, at the angles
  \<open>2 pi k / 64\<close>: the set of the convex combinations of the vertices. It is empty for
  \<open>r \<le> 0\<close>. \<open>intersects\<close> holds of two geometries that share a point.
\<close>

definition vertex :: "nat \<Rightarrow> complex" where
  "vertex k = cis (2 * pi * real k / 64)"

definition shapely_buffer :: "complex \<Rightarrow> real \<Rightarrow> complex set" where
  "shapely_buffer c r =
     (if r \<le> 0 then {}
      else {c + of_real r * (\<Sum>k<64. of_real (w k) * vertex k) | w.
              (\<forall>k<64. 0 \<le> w k) \<and> (\<Sum>k<64. w k) = 1})"

definition shapely_intersects :: "complex set \<Rightarrow> complex set \<Rightarrow> bool" where
  "shapely_intersects a b \<longleftrightarrow> a \<inter> b \<noteq> {}"

definition centre :: "(real, 'g) trace \<Rightarrow> complex" where
  "centre r = Complex (latitude r) (longitude r)"

text \<open>
  The column \<open>short_range_communication_area\<close> is added to every row: the buffer of
  radius \<open>dst / 100000\<close> about the row's point.
\<close>

definition add_short_range_communication_area ::
  "int \<Rightarrow> (real, 'g) trace list \<Rightarrow> (real, complex set) trace list" where
  "add_short_range_communication_area dst data =
     map (\<lambda>r. \<lparr>user_id = user_id r, latitude = latitude r, longitude = longitude r,
               sampletimestamp = sampletimestamp r, accuracy = accuracy r,
               short_range_communication_area = shapely_buffer (centre r) (real_of_int dst / 100000)\<rparr>)
       data"

section \<open>dataframe_split\<close>

text \<open>
  The timestamp column holds numpy int64 values, and \<open>tw\<close> is taken within the int64
  range too (numpy then keeps the sums below in int64). A sum or difference of two
  int64 values wraps around silently: numpy only warns, and warnings are filtered.
\<close>

definition int64 :: "int \<Rightarrow> bool" where
  "int64 x \<longleftrightarrow> - (2 ^ 63) \<le> x \<and> x < 2 ^ 63"

definition wrap64 :: "int \<Rightarrow> int" where
  "wrap64 x = (x + 2 ^ 63) mod 2 ^ 64 - 2 ^ 63"

text \<open>
  float64 arithmetic, on rationals. \<open>float64 x\<close> is the float nearest to \<open>x\<close>, ties to
  the even significand: with \<open>2 ^ e \<le> |x| < 2 ^ (e + 1)\<close>, the multiple of
  \<open>2 ^ (e - 52)\<close> nearest to \<open>x\<close>. The exponent range is not modelled: the values that
  occur are \<open>0\<close> or lie between \<open>2 ^ -64\<close> and \<open>2 ^ 64\<close> in magnitude, and \<open>ilog2\<close>
  finds the exponent \<open>e\<close> of such a value.
\<close>

fun floorlog2 :: "nat \<Rightarrow> nat" where
  "floorlog2 n = (if n < 2 then 0 else Suc (floorlog2 (n div 2)))"

definition ilog2 :: "rat \<Rightarrow> int" where
  "ilog2 x = int (floorlog2 (nat \<lfloor>x * 2 ^ 64\<rfloor>)) - 64"

definition round_half_even :: "rat \<Rightarrow> int" where
  "round_half_even m =
     (let n = \<lfloor>m\<rfloor>; f = m - of_int n
      in if f < 1 / 2 then n else if 1 / 2 < f then n + 1 else if even n then n else n + 1)"

definition float64 :: "rat \<Rightarrow> rat" where
  "float64 x =
     (if x = 0 then 0
      else let u = 2 powi (ilog2 \<bar>x\<bar> - 52)
           in sgn x * of_int (round_half_even (\<bar>x\<bar> / u)) * u)"

text \<open>\<open>int()\<close> of a finite float: truncation towards zero.\<close>

definition py_int :: "rat \<Rightarrow> int" where
  "py_int x = (if 0 \<le> x then \<lfloor>x\<rfloor> else - \<lfloor>- x\<rfloor>)"

text \<open>
  \<open>int(a / b)\<close> for an int64 \<open>a\<close> and an integer \<open>b\<close>: both operands are converted to
  float64, the quotient is rounded to float64, and \<open>int\<close> truncates it. Dividing by
  \<open>b = 0\<close> gives NaN for \<open>0 / 0\<close> and an infinity otherwise; \<open>int\<close> raises ValueError on
  the first and OverflowError on the second.
\<close>

definition int_truediv :: "int \<Rightarrow> int \<Rightarrow> error + int" where
  "int_truediv a b =
     (if b = 0 then (if a = 0 then Inl ValueError else Inl OverflowError)
      else Inr (py_int (float64 (float64 (of_int a) / float64 (of_int b)))))"

text \<open>
  The membership test of a partition: both bounds inclusive, the upper bound
  \<open>min_stp + tw\<close> an int64 sum.
\<close>

definition in_window :: "int \<Rightarrow> int \<Rightarrow> ('f, 'g) trace \<Rightarrow> bool" where
  "in_window min_stp tw r \<longleftrightarrow>
     sampletimestamp r \<ge> min_stp \<and> sampletimestamp r \<le> wrap64 (min_stp + tw)"

text \<open>
  The loop \<open>for i in range(df_s)\<close>, with the running lower bound \<open>min_stp\<close>, which
  \<open>min_stp = min_stp + tw\<close> advances in int64.
\<close>

fun split_loop :: "nat \<Rightarrow> int \<Rightarrow> int \<Rightarrow> ('f, 'g) trace list \<Rightarrow> ('f, 'g) trace list list" where
  "split_loop 0 min_stp tw data = []"
| "split_loop (Suc n) min_stp tw data =
     filter (in_window min_stp tw) data # split_loop n (wrap64 (min_stp + tw)) tw data"

text \<open>
  The bounds \<open>(min_stp, min_stp + tw)\<close> the same loop compares with, one pair per
  iteration: the windows of the run.
\<close>

fun window_bounds :: "nat \<Rightarrow> int \<Rightarrow> int \<Rightarrow> (int \<times> int) list" where
  "window_bounds 0 min_stp tw = []"
| "window_bounds (Suc n) min_stp tw =
     (min_stp, wrap64 (min_stp + tw)) # window_bounds n (wrap64 (min_stp + tw)) tw"

text \<open>
  \<open>min()\<close> and \<open>max()\<close> of the timestamp column, read only when it is not empty:
  they are NaN for an empty column, and then \<open>int\<close> of the NaN quotient raises
  ValueError.
\<close>

definition min_stp :: "('f, 'g) trace list \<Rightarrow> int" where
  "min_stp data = Min (set (map sampletimestamp data))"

definition max_stp :: "('f, 'g) trace list \<Rightarrow> int" where
  "max_stp data = Max (set (map sampletimestamp data))"

text \<open>
  \<open>df_s = int((max_stp - min_stp) / tw) + 1\<close>, for a column that is not empty: an int64
  difference, a float64 quotient, and a Python integer sum.
\<close>

definition df_s :: "('f, 'g) trace list \<Rightarrow> int \<Rightarrow> error + int" where
  "df_s data tw =
     (case int_truediv (wrap64 (max_stp data - min_stp data)) tw of
        Inl e \<Rightarrow> Inl e
      | Inr q \<Rightarrow> Inr (q + 1))"

text \<open>\<open>range(df_s)\<close> is empty for \<open>df_s \<le> 0\<close>, which \<open>nat\<close> gives.\<close>

definition dataframe_split ::
  "('f, 'g) trace list \<Rightarrow> int \<Rightarrow> error + ('f, 'g) trace list list" where
  "dataframe_split data tw =
     (if data = [] then Inl ValueError
      else case df_s data tw of
             Inl e \<Rightarrow> Inl e
           | Inr n \<Rightarrow> Inr (split_loop (nat n) (min_stp data) tw data))"

section \<open>get_intersections\<close>

text \<open>
  \<open>intersects\<close> is the predicate on two communication areas, a parameter here; on
  the areas added by \<open>add_short_range_communication_area\<close> it is
  \<open>shapely_intersects\<close>. The row appended for an intersecting pair \<open>i\<close>, \<open>j\<close>:
\<close>

definition intersection_row :: "('f, 'g) trace \<Rightarrow> ('f, 'g) trace \<Rightarrow> intersection" where
  "intersection_row i j =
     \<lparr>uid_1 = user_id i, timestamp_uid_1 = sampletimestamp i,
      uid_2 = user_id j, timestamp_uid_2 = sampletimestamp j\<rparr>"

text \<open>\<open>df_dfs[user]\<close>: the rows of the partition that belong to \<open>user\<close>, in order.\<close>

definition df_dfs :: "('f, 'g) trace list \<Rightarrow> int \<Rightarrow> ('f, 'g) trace list" where
  "df_dfs single_df_split user = filter (\<lambda>r. user_id r = user) single_df_split"

text \<open>
  The loop \<open>for k in range(len(users)-1)\<close> over the remaining users: the head is
  \<open>subject\<close>, the tail \<open>other_users\<close>; the last user is never a subject. The three
  inner loops are the list comprehension, in the source's nesting order.
\<close>

fun subject_loop ::
  "('g \<Rightarrow> 'g \<Rightarrow> bool) \<Rightarrow> ('f, 'g) trace list \<Rightarrow> int list \<Rightarrow> intersection list" where
  "subject_loop intersects df [] = []"
| "subject_loop intersects df [u] = []"
| "subject_loop intersects df (subject # other_users) =
     [intersection_row i j.
        i \<leftarrow> df_dfs df subject, usr \<leftarrow> other_users, j \<leftarrow> df_dfs df usr,
        intersects (short_range_communication_area i) (short_range_communication_area j)]
     @ subject_loop intersects df other_users"

definition partition_intersections ::
  "('g \<Rightarrow> 'g \<Rightarrow> bool) \<Rightarrow> ('f, 'g) trace list \<Rightarrow> intersection list" where
  "partition_intersections intersects single_df_split =
     subject_loop intersects single_df_split (unique (map user_id single_df_split))"

text \<open>\<open>get_intersections\<close> calls \<open>dataframe_split()\<close> with its default, 150 seconds.\<close>

definition get_intersections ::
  "('g \<Rightarrow> 'g \<Rightarrow> bool) \<Rightarrow> ('f, 'g) trace list \<Rightarrow> error + intersection list list" where
  "get_intersections intersects data =
     (case dataframe_split data 150 of
        Inl e \<Rightarrow> Inl e
      | Inr df_split \<Rightarrow> Inr (map (partition_intersections intersects) df_split))"

section \<open>get_colocations\<close>

definition users_couples ::
  "((int \<times> int) list \<Rightarrow> (int \<times> int) list) \<Rightarrow> intersection list \<Rightarrow> (int \<times> int) list" where
  "users_couples to_list df = to_list (map (\<lambda>user. (uid_1 user, uid_2 user)) df)"

text \<open>
  The body of \<open>for couple in users_couples\<close>: the rows \<open>sc\<close> of the couple, their
  timestamps \<open>df_time\<close>, and the four rows appended to \<open>coloc\<close>. \<open>df_time\<close> is never
  empty there, since a couple is drawn from the rows of \<open>df\<close>.
\<close>

definition df_time :: "intersection list \<Rightarrow> int \<times> int \<Rightarrow> int list" where
  "df_time df couple =
     (let sc = filter (\<lambda>e. uid_1 e = fst couple \<and> uid_2 e = snd couple) df
      in map timestamp_uid_1 sc @ map timestamp_uid_2 sc)"

definition couple_coloc :: "intersection list \<Rightarrow> int \<times> int \<Rightarrow> colocation list" where
  "couple_coloc df couple =
     [\<lparr>node_1 = fst couple, node_2 = snd couple,
        timestamp = Min (set (df_time df couple)), connection = ''up''\<rparr>,
      \<lparr>node_1 = fst couple, node_2 = snd couple,
        timestamp = Max (set (df_time df couple)), connection = ''down''\<rparr>,
      \<lparr>node_1 = snd couple, node_2 = fst couple,
        timestamp = Min (set (df_time df couple)), connection = ''up''\<rparr>,
      \<lparr>node_1 = snd couple, node_2 = fst couple,
        timestamp = Max (set (df_time df couple)), connection = ''down''\<rparr>]"

definition df_coloc ::
  "((int \<times> int) list \<Rightarrow> (int \<times> int) list) \<Rightarrow> intersection list \<Rightarrow> colocation list" where
  "df_coloc to_list df = concat (map (couple_coloc df) (users_couples to_list df))"

text \<open>
  \<open>df_ac = pd.concat([df_ac, df_coloc])\<close> over the partitions, from the empty
  dataframe; the final \<open>reset_index\<close> numbers the rows \<open>0, 1, ...\<close>, which are the
  positions of the list.
\<close>

definition get_colocations ::
  "((int \<times> int) list \<Rightarrow> (int \<times> int) list) \<Rightarrow> ('g \<Rightarrow> 'g \<Rightarrow> bool) \<Rightarrow> ('f, 'g) trace list
     \<Rightarrow> error + colocation list" where
  "get_colocations to_list intersects data =
     (case get_intersections intersects data of
        Inl e \<Rightarrow> Inl e
      | Inr df_dfs_int \<Rightarrow> Inr (foldl (\<lambda>df_ac df. df_ac @ df_coloc to_list df) [] df_dfs_int))"

section \<open>The notions of the specification\<close>

text \<open>
  These follow the specification's words, not the code: the overlap events of an
  unordered pair of users, the timestamps either side contributes to them, and the
  co-location rows of an unordered pair in an output table.
\<close>

definition pair_events :: "intersection list \<Rightarrow> int \<Rightarrow> int \<Rightarrow> intersection list" where
  "pair_events df a b = filter (\<lambda>e. {uid_1 e, uid_2 e} = {a, b}) df"

definition pair_timestamps :: "intersection list \<Rightarrow> int \<Rightarrow> int \<Rightarrow> int list" where
  "pair_timestamps df a b =
     map timestamp_uid_1 (pair_events df a b) @ map timestamp_uid_2 (pair_events df a b)"

definition pair_colocations :: "colocation list \<Rightarrow> int \<Rightarrow> int \<Rightarrow> colocation list" where
  "pair_colocations out a b = filter (\<lambda>c. {node_1 c, node_2 c} = {a, b}) out"

text \<open>
  The table the specification describes: within a window, the pairs in the order of
  their first overlap event.
\<close>

definition discovery_order_table ::
  "('g \<Rightarrow> 'g \<Rightarrow> bool) \<Rightarrow> ('f, 'g) trace list \<Rightarrow> error + colocation list" where
  "discovery_order_table intersects data = get_colocations unique intersects data"

text \<open>
  An iteration order that is not the order of insertion: ascending, without
  duplicates. On the tuples \<open>(0, 2), (0, 1), (2, 1)\<close>, inserted in this order, it is the
  order in which CPython 3.11 iterates over their set (hash slots 0, 2 and 5 of the
  eight-slot table).
\<close>

definition ascending_iteration :: "(int \<times> int) list \<Rightarrow> (int \<times> int) list" where
  "ascending_iteration xs = sort (remdups xs)"

section \<open>Sample rows\<close>

text \<open>
  Rows for the worked examples below. \<open>row\<close>: user, timestamp and communication area,
  with an integer standing for the area (two areas intersect when the example's
  predicate says so). \<open>place\<close>: user, latitude, longitude, timestamp and communication
  area, for the examples on the geometry.
\<close>

definition row :: "int \<Rightarrow> int \<Rightarrow> int \<Rightarrow> (unit, int) trace" where
  "row u t a = \<lparr>user_id = u, latitude = (), longitude = (), sampletimestamp = t,
                accuracy = (), short_range_communication_area = a\<rparr>"

definition place :: "int \<Rightarrow> real \<Rightarrow> real \<Rightarrow> int \<Rightarrow> 'g \<Rightarrow> (real, 'g) trace" where
  "place u x y t a = \<lparr>user_id = u, latitude = x, longitude = y, sampletimestamp = t,
                      accuracy = 0, short_range_communication_area = a\<rparr>"

section \<open>Properties of the float64 model\<close>

declare floorlog2.simps [simp del]

lemma floorlog2_bounds: "0 < n \<Longrightarrow> 2 ^ floorlog2 n \<le> n \<and> n < 2 ^ Suc (floorlog2 n)"
proof (induction n rule: floorlog2.induct)
  case (1 n)
  show ?case
  proof (cases "n < 2")
    case True
    with "1.prems" have "n = 1" by simp
    then show ?thesis by (simp add: floorlog2.simps)
  next
    case False
    then have pos: "0 < n div 2" by simp
    have IH: "2 ^ floorlog2 (n div 2) \<le> n div 2 \<and> n div 2 < 2 ^ Suc (floorlog2 (n div 2))"
      using "1.IH" [OF False pos] .
    have eq: "floorlog2 n = Suc (floorlog2 (n div 2))"
      using False by (subst floorlog2.simps) simp
    have d: "2 * (n div 2) \<le> n" "n < 2 * (n div 2) + 2" by simp_all
    define P where "P = (2::nat) ^ floorlog2 (n div 2)"
    have "P \<le> n div 2" "n div 2 < 2 * P" using IH by (simp_all add: P_def)
    then have "2 * P \<le> n \<and> n < 2 * (2 * P)" using d by linarith
    then show ?thesis unfolding eq by (simp add: P_def)
  qed
qed

lemma round_half_even_ge: "of_int N \<le> m \<Longrightarrow> N \<le> round_half_even m"
proof -
  assume "of_int N \<le> m"
  then have "N \<le> \<lfloor>m\<rfloor>" by (simp add: le_floor_iff)
  then show ?thesis by (simp add: round_half_even_def Let_def)
qed

lemma round_half_even_le: "of_int (round_half_even m) \<le> m + 1 / 2"
proof -
  have f: "of_int \<lfloor>m\<rfloor> \<le> m" by simp
  show ?thesis
  proof (cases "m - of_int \<lfloor>m\<rfloor> < 1 / 2")
    case True
    then have "round_half_even m = \<lfloor>m\<rfloor>" by (simp add: round_half_even_def Let_def)
    then show ?thesis using f by linarith
  next
    case False
    then have "round_half_even m \<le> \<lfloor>m\<rfloor> + 1" by (simp add: round_half_even_def Let_def)
    then have "(of_int (round_half_even m) :: rat) \<le> of_int \<lfloor>m\<rfloor> + 1"
      by (metis of_int_le_iff of_int_add of_int_1)
    then show ?thesis using False by linarith
  qed
qed

lemma round_half_even_of_int [simp]: "round_half_even (of_int N) = N"
  by (simp add: round_half_even_def)

lemma float64_minus: "float64 (- x) = - float64 x"
  by (simp add: float64_def Let_def)

lemma ilog2_bounds:
  assumes "1 / 2 ^ 64 \<le> x"
  shows "2 powi (ilog2 x) \<le> x \<and> x < 2 powi (ilog2 x + 1)"
proof -
  define y where "y = x * 2 ^ 64"
  define N where "N = nat \<lfloor>y\<rfloor>"
  define k where "k = floorlog2 N"
  have y1: "1 \<le> y" using assms by (simp add: y_def field_simps)
  then have fl: "1 \<le> \<lfloor>y\<rfloor>" by simp
  then have N: "0 < N" by (simp add: N_def)
  have b: "2 ^ k \<le> N \<and> N < 2 ^ Suc k" unfolding k_def using floorlog2_bounds [OF N] .
  have Nint: "int N = \<lfloor>y\<rfloor>" using fl by (simp add: N_def)
  have "int (2 ^ k) \<le> int N" using b by (simp only: of_nat_le_iff)
  then have "(2::int) ^ k \<le> \<lfloor>y\<rfloor>" unfolding Nint by simp
  then have "of_int ((2::int) ^ k) \<le> y" by (simp only: le_floor_iff)
  then have lo: "(2::rat) ^ k \<le> y" by simp
  have "int N < int (2 ^ Suc k)" using b by (simp only: of_nat_less_iff)
  then have "\<lfloor>y\<rfloor> < (2::int) ^ Suc k" unfolding Nint by simp
  then have "y < of_int ((2::int) ^ Suc k)" by (simp only: floor_less_iff)
  then have hi: "y < (2::rat) ^ Suc k" by simp
  have e: "ilog2 x = int k - 64" by (simp add: ilog2_def k_def N_def y_def)
  have p1: "(2::rat) powi (int k - 64) = 2 ^ k / 2 ^ 64"
    by (simp add: power_int_diff)
  have "(2::rat) powi (int k - 64 + 1) = 2 powi (int k - 64) * 2"
    by (rule power_int_add_1) simp
  then have p2: "(2::rat) powi (int k - 64 + 1) = 2 ^ Suc k / 2 ^ 64"
    unfolding p1 by simp
  have x: "x = y / 2 ^ 64" by (simp add: y_def)
  have A: "(2::rat) powi (ilog2 x) = 2 ^ k / 2 ^ 64" by (simp only: e p1)
  have B: "(2::rat) powi (ilog2 x + 1) = 2 ^ Suc k / 2 ^ 64" by (simp only: e p2)
  have "2 ^ k / 2 ^ 64 \<le> y / (2 ^ 64 :: rat)" using lo by (simp add: divide_right_mono)
  then have C: "2 ^ k / 2 ^ 64 \<le> x" by (simp only: x [symmetric])
  have "y / (2 ^ 64 :: rat) < 2 ^ Suc k / 2 ^ 64" using hi by (simp add: divide_strict_right_mono)
  then have D: "x < 2 ^ Suc k / 2 ^ 64" by (simp only: x [symmetric])
  show ?thesis unfolding A B using C D by (rule conjI)
qed


lemma ilog2_unique:
  assumes "2 powi e \<le> x" and "x < 2 powi (e + 1)" and "1 / 2 ^ 64 \<le> x"
  shows "ilog2 x = e"
proof -
  have b: "2 powi (ilog2 x) \<le> x" "x < 2 powi (ilog2 x + 1)" using ilog2_bounds [OF assms(3)] by simp_all
  have "(2::rat) powi (ilog2 x) < 2 powi (e + 1)" using b(1) assms(2) by (rule le_less_trans)
  then have 1: "ilog2 x < e + 1"
    using power_int_increasing [of "e + 1" "ilog2 x" "2::rat"] by (cases "ilog2 x < e + 1") simp_all
  have "(2::rat) powi e < 2 powi (ilog2 x + 1)" using assms(1) b(2) by (rule le_less_trans)
  then have 2: "e < ilog2 x + 1"
    using power_int_increasing [of "ilog2 x + 1" e "2::rat"] by (cases "e < ilog2 x + 1") simp_all
  from 1 2 show ?thesis by simp
qed

lemma ilog2_le_52:
  assumes "1 / 2 ^ 64 \<le> x" and "x < 2 ^ 53"
  shows "ilog2 x \<le> 52"
proof (rule ccontr)
  assume "\<not> ilog2 x \<le> 52"
  then have "53 \<le> ilog2 x" by simp
  then have "(2::rat) powi 53 \<le> 2 powi (ilog2 x)" by (rule power_int_increasing) simp
  moreover have "2 powi (ilog2 x) \<le> x" using ilog2_bounds [OF assms(1)] by simp
  moreover have "(2::rat) powi 53 = 2 ^ 53" by (simp add: power_int_def)
  ultimately show False using assms(2) by linarith
qed

lemma ulp_eq:
  assumes "e \<le> 52"
  shows "(2::rat) powi (e - 52) = 1 / 2 ^ nat (52 - e)"
proof -
  have "e - 52 = - int (nat (52 - e))" using assms by simp
  then have "(2::rat) powi (e - 52) = 2 powi (- int (nat (52 - e)))" by simp
  also have "\<dots> = inverse (2 powi (int (nat (52 - e))))" by (rule power_int_minus)
  also have "\<dots> = 1 / 2 ^ nat (52 - e)" by (simp only: power_int_of_nat inverse_eq_divide)
  finally show ?thesis .
qed

lemma ulp_eq': "(2::rat) powi (e - 52) = 2 powi e / 2 ^ 52"
proof -
  have "(2::rat) powi (e - 52) = 2 powi e / 2 powi 52" by (rule power_int_diff) simp
  moreover have "(2::rat) powi 52 = 2 ^ 52" by (simp add: power_int_def)
  ultimately show ?thesis by simp
qed

lemma float64_pos:
  assumes "0 < x"
  shows "float64 x = of_int (round_half_even (x / 2 powi (ilog2 x - 52))) * 2 powi (ilog2 x - 52)"
  using assms by (simp add: float64_def Let_def)

lemma float64_int_exact:
  assumes "0 < a" and "a < 2 ^ 53"
  shows "float64 (of_int a) = of_int a"
proof -
  define x :: rat where "x = of_int a"
  have x0: "0 < x" using assms(1) by (simp add: x_def)
  have "1 \<le> x" using assms(1) by (simp add: x_def)
  then have x1: "1 / 2 ^ 64 \<le> x" by simp
  have "x < of_int (2 ^ 53)" unfolding x_def using assms(2) by (simp only: of_int_less_iff)
  then have x2: "x < 2 ^ 53" by simp
  have e: "ilog2 x \<le> 52" using x1 x2 by (rule ilog2_le_52)
  define n where "n = nat (52 - ilog2 x)"
  have u: "(2::rat) powi (ilog2 x - 52) = 1 / 2 ^ n" unfolding n_def using e by (rule ulp_eq)
  have "x / (1 / 2 ^ n) = of_int (a * 2 ^ n)" by (simp add: x_def)
  then have "round_half_even (x / (1 / 2 ^ n)) = a * 2 ^ n" by (simp only: round_half_even_of_int)
  then have "float64 x = of_int (a * 2 ^ n) * (1 / 2 ^ n)"
    unfolding float64_pos [OF x0] u by simp
  then show ?thesis by (simp add: x_def)
qed

lemma float64_quot_bounds:
  assumes "0 < a" "a < 2 ^ 53" "0 < b" "b < 2 ^ 53"
  shows "of_int (a div b) \<le> float64 (of_int a / of_int b)
       \<and> float64 (of_int a / of_int b) < of_int (a div b) + 1"
proof -
  define A :: rat where "A = of_int a"
  define B :: rat where "B = of_int b"
  define q where "q = A / B"
  define d where "d = a div b"
  have A0: "0 < A" and B0: "0 < B" using assms by (simp_all add: A_def B_def)
  have A1: "1 \<le> A" and B1: "1 \<le> B" using assms by (simp_all add: A_def B_def)
  have "A < of_int (2 ^ 53)" unfolding A_def using assms(2) by (simp only: of_int_less_iff)
  then have A2: "A < 2 ^ 53" by simp
  have "B < of_int (2 ^ 53)" unfolding B_def using assms(4) by (simp only: of_int_less_iff)
  then have B2: "B < 2 ^ 53" by simp
  have q0: "0 < q" using A0 B0 by (simp add: q_def)
  have "1 / B \<le> q" unfolding q_def using A1 B0 by (simp add: divide_right_mono)
  moreover have "1 / 2 ^ 53 < 1 / B" using B0 B2 by (simp add: frac_less2)
  moreover have "(1::rat) / 2 ^ 64 \<le> 1 / 2 ^ 53" by simp
  ultimately have q1: "1 / 2 ^ 64 \<le> q" by linarith
  have "q \<le> A" unfolding q_def using A0 B1 by (simp add: field_simps)
  then have q2: "q < 2 ^ 53" using A2 by linarith
  define e where "e = ilog2 q"
  have e52: "e \<le> 52" unfolding e_def using q1 q2 by (rule ilog2_le_52)
  have elo: "2 powi e \<le> q" unfolding e_def using ilog2_bounds [OF q1] by simp
  define n where "n = nat (52 - e)"
  define u :: rat where "u = 1 / 2 ^ n"
  have u0: "0 < u" by (simp add: u_def)
  have u: "(2::rat) powi (e - 52) = u" unfolding u_def n_def using e52 by (rule ulp_eq)
  have fl: "float64 q = of_int (round_half_even (q / u)) * u"
    using float64_pos [OF q0] unfolding e_def [symmetric] u .
  \<comment> \<open>the integer quotient is a float of this exponent, below \<open>q\<close>\<close>
  have dm: "b * d + a mod b = a" unfolding d_def by (rule mult_div_mod_eq)
  have "0 \<le> a mod b" using assms(3) by simp
  then have "b * d \<le> a" using dm by linarith
  then have "d * b \<le> a" by (simp add: mult.commute)
  then have "of_int (d * b) \<le> A" unfolding A_def by (simp only: of_int_le_iff)
  then have "of_int d * B \<le> A" by (simp add: B_def)
  then have dq: "of_int d \<le> q" unfolding q_def using B0 by (simp add: pos_le_divide_eq)
  have "of_int (d * 2 ^ n) = of_int d / u" by (simp add: u_def)
  also have "\<dots> \<le> q / u" using dq u0 by (simp add: divide_right_mono)
  finally have "d * 2 ^ n \<le> round_half_even (q / u)" by (rule round_half_even_ge)
  then have "of_int (d * 2 ^ n) \<le> (of_int (round_half_even (q / u)) :: rat)" by (simp only: of_int_le_iff)
  then have "of_int (d * 2 ^ n) * u \<le> of_int (round_half_even (q / u)) * u"
    using u0 by (simp only: mult_le_cancel_right_pos)
  moreover have "of_int (d * 2 ^ n) * u = of_int d" by (simp add: u_def)
  ultimately have lower: "of_int d \<le> float64 q" unfolding fl by (simp only:)
  \<comment> \<open>rounding moves \<open>q\<close> by at most half a unit in the last place, which is below \<open>1 / b\<close>\<close>
  have "of_int (round_half_even (q / u)) \<le> q / u + 1 / 2" by (rule round_half_even_le)
  then have "of_int (round_half_even (q / u)) * u \<le> (q / u + 1 / 2) * u"
    using u0 by (simp only: mult_le_cancel_right_pos)
  moreover have "(q / u + 1 / 2) * u = q + u / 2" using u0 by (simp add: field_simps)
  ultimately have up1: "float64 q \<le> q + u / 2" unfolding fl by (simp only:)
  have "u = 2 powi e / 2 ^ 52" using u ulp_eq' [of e] by simp
  then have "u / 2 = 2 powi e / 2 ^ 53" by simp
  also have "\<dots> \<le> q / 2 ^ 53" using elo by (simp add: divide_right_mono)
  also have "\<dots> < 1 / B"
  proof -
    have "q * B = A" using B0 by (simp add: q_def)
    then have "q * B < 2 ^ 53" using A2 by simp
    then show ?thesis using B0 by (simp add: field_simps)
  qed
  finally have up2: "u / 2 < 1 / B" .
  have "a mod b < b" using assms(3) by simp
  then have "a + 1 \<le> b * d + b" using dm by linarith
  then have "a + 1 \<le> (d + 1) * b" by (simp add: algebra_simps)
  then have "of_int (a + 1) \<le> (of_int ((d + 1) * b) :: rat)" by (simp only: of_int_le_iff)
  then have "A + 1 \<le> (of_int d + 1) * B" by (simp add: A_def B_def)
  then have "(A + 1) / B \<le> of_int d + 1" using B0 by (simp add: pos_divide_le_eq)
  then have up3: "q + 1 / B \<le> of_int d + 1" by (simp add: q_def add_divide_distrib)
  have upper: "float64 q < of_int d + 1" using up1 up2 up3 by linarith
  show ?thesis using lower upper unfolding q_def A_def B_def d_def by (rule conjI)
qed

lemma int_truediv_exact:
  assumes "0 \<le> a" "a < 2 ^ 53" "0 < b" "b < 2 ^ 53"
  shows "int_truediv a b = Inr (a div b)"
proof (cases "a = 0")
  case True
  then show ?thesis using assms(3) by (simp add: int_truediv_def float64_def py_int_def)
next
  case False
  then have a: "0 < a" using assms(1) by simp
  have fa: "float64 (of_int a) = of_int a" using a assms(2) by (rule float64_int_exact)
  have fb: "float64 (of_int b) = of_int b" using assms(3,4) by (rule float64_int_exact)
  have b: "of_int (a div b) \<le> float64 (of_int a / of_int b)"
    "float64 (of_int a / of_int b) < of_int (a div b) + 1"
    using float64_quot_bounds [OF a assms(2,3,4)] by simp_all
  have "0 \<le> a div b" using assms(1,3) by (simp add: pos_imp_zdiv_nonneg_iff)
  then have "(0::rat) \<le> of_int (a div b)" by simp
  then have nn: "0 \<le> float64 (of_int a / of_int b)" using b(1) by linarith
  have "\<lfloor>float64 (of_int a / of_int b)\<rfloor> = a div b" using b by (simp add: floor_unique)
  then show ?thesis using assms(3) nn by (simp add: int_truediv_def fa fb py_int_def)
qed

lemma int_truediv_exact_neg:
  assumes "0 \<le> a" "a < 2 ^ 53" "b < 0" "- (2 ^ 53) < b"
  shows "int_truediv a b = Inr (- (a div (- b)))"
proof (cases "a = 0")
  case True
  then show ?thesis using assms(3) by (simp add: int_truediv_def float64_def py_int_def)
next
  case False
  then have a: "0 < a" using assms(1) by simp
  have b': "0 < - b" "- b < 2 ^ 53" using assms(3,4) by simp_all
  have fa: "float64 (of_int a) = of_int a" using a assms(2) by (rule float64_int_exact)
  have "float64 (of_int (- b)) = of_int (- b)" using b' by (rule float64_int_exact)
  then have fb: "float64 (of_int b) = of_int b" using float64_minus [of "of_int b"] by simp
  have bd: "of_int (a div (- b)) \<le> float64 (of_int a / of_int (- b))"
    "float64 (of_int a / of_int (- b)) < of_int (a div (- b)) + 1"
    using float64_quot_bounds [OF a assms(2) b'] by simp_all
  have fl: "\<lfloor>float64 (of_int a / of_int (- b))\<rfloor> = a div (- b)" using bd by (simp add: floor_unique)
  have "0 \<le> a div (- b)" using assms(1) b'(1) by (simp add: pos_imp_zdiv_nonneg_iff)
  then have "(0::rat) \<le> of_int (a div (- b))" by simp
  then have nn: "0 \<le> float64 (of_int a / of_int (- b))" using bd(1) by linarith
  have q: "float64 (of_int a / of_int b) = - float64 (of_int a / of_int (- b))"
    using float64_minus [of "of_int a / of_int (- b)"] by simp
  have "py_int (- float64 (of_int a / of_int (- b))) = - (a div (- b))"
  proof (cases "float64 (of_int a / of_int (- b)) = 0")
    case True
    then show ?thesis using fl by (simp add: py_int_def)
  next
    case False
    then have "\<not> 0 \<le> - float64 (of_int a / of_int (- b))" using nn by simp
    then show ?thesis using fl by (simp add: py_int_def)
  qed
  then show ?thesis using assms(3) by (simp add: int_truediv_def fa fb q)
qed

lemma round_half_even_numeral [simp]: "round_half_even (numeral k) = numeral k"
  using round_half_even_of_int [of "numeral k"] by simp

lemma float64_2p53: "float64 9007199254740992 = 9007199254740992"
proof -
  have e: "ilog2 9007199254740992 = 53"
    by (rule ilog2_unique) (simp_all add: power_int_def)
  have u: "(2::rat) powi (53 - 52) = 2" by (simp add: power_int_def)
  have r: "round_half_even (9007199254740992 / 2) = 4503599627370496"
    by (simp add: round_half_even_def Let_def)
  show ?thesis
    using float64_pos [of 9007199254740992] by (simp add: e u r)
qed

lemma float64_2p53_1: "float64 9007199254740993 = 9007199254740992"
proof -
  have e: "ilog2 9007199254740993 = 53"
    by (rule ilog2_unique) (simp_all add: power_int_def)
  have u: "(2::rat) powi (53 - 52) = 2" by (simp add: power_int_def)
  have f: "\<lfloor>9007199254740993 / (2::rat)\<rfloor> = 4503599627370496" by (simp add: floor_unique)
  have r: "round_half_even (9007199254740993 / 2) = 4503599627370496"
    unfolding round_half_even_def Let_def f by simp
  show ?thesis
    using float64_pos [of 9007199254740993] by (simp add: e u r)
qed

lemma int_truediv_rounds_up: "int_truediv 9007199254740992 9007199254740993 = Inr 1"
proof -
  have "float64 (of_int 1) = of_int 1" by (rule float64_int_exact) simp_all
  then have "float64 1 = 1" by simp
  then show ?thesis
    by (simp add: int_truediv_def float64_2p53 float64_2p53_1 py_int_def)
qed

section \<open>Properties of dataframe_split\<close>

lemma wrap64_id: "int64 x \<Longrightarrow> wrap64 x = x"
  by (simp add: int64_def wrap64_def)

lemma wrap64_high:
  assumes "2 ^ 63 \<le> x" and "x < 2 ^ 64"
  shows "wrap64 x = x - 2 ^ 64"
proof -
  define y where "y = x - 2 ^ 63"
  have y: "0 \<le> y" "y < 2 ^ 64" using assms by (simp_all add: y_def)
  have "x + 2 ^ 63 = y + 2 ^ 64" by (simp add: y_def)
  then have "(x + 2 ^ 63) mod 2 ^ 64 = (y + 2 ^ 64) mod 2 ^ 64" by (simp only:)
  also have "\<dots> = y mod 2 ^ 64" by (rule mod_add_self2)
  also have "\<dots> = y" using y by (rule mod_pos_pos_trivial)
  finally show ?thesis by (simp add: wrap64_def y_def)
qed

lemma split_loop_bounds:
  "split_loop n m tw data =
     map (\<lambda>(lo, hi). filter (\<lambda>r. lo \<le> sampletimestamp r \<and> sampletimestamp r \<le> hi) data)
       (window_bounds n m tw)"
  by (induction n arbitrary: m) (auto simp: in_window_def [abs_def])

lemma length_window_bounds [simp]: "length (window_bounds n m tw) = n"
  by (induction n arbitrary: m) simp_all

lemma window_bounds_nth:
  assumes "0 \<le> tw" and "- (2 ^ 63) \<le> m" and "i < n" and "m + (int i + 1) * tw < 2 ^ 63"
  shows "window_bounds n m tw ! i = (m + int i * tw, m + int i * tw + tw)"
  using assms
proof (induction n arbitrary: i m)
  case 0
  then show ?case by simp
next
  case (Suc n)
  have "0 \<le> int i * tw" using Suc.prems(1) by simp
  then have "m + tw \<le> m + (int i + 1) * tw" by (simp add: algebra_simps)
  then have "int64 (m + tw)" using Suc.prems(1,2,4) by (simp add: int64_def)
  then have w: "wrap64 (m + tw) = m + tw" by (rule wrap64_id)
  show ?case
  proof (cases i)
    case 0
    then show ?thesis by (simp add: w)
  next
    case (Suc j)
    have "window_bounds n (m + tw) tw ! j = (m + tw + int j * tw, m + tw + int j * tw + tw)"
    proof (rule Suc.IH)
      show "0 \<le> tw" by (rule Suc.prems(1))
      show "- (2 ^ 63) \<le> m + tw" using Suc.prems(1,2) by simp
      show "j < n" using Suc.prems(3) Suc by simp
      show "m + tw + (int j + 1) * tw < 2 ^ 63" using Suc.prems(4) Suc by (simp add: algebra_simps)
    qed
    then show ?thesis using Suc by (simp add: w algebra_simps)
  qed
qed

lemma window_bounds_nowrap:
  assumes "0 \<le> tw" and "- (2 ^ 63) \<le> m" and "m + int n * tw < 2 ^ 63"
  shows "window_bounds n m tw = map (\<lambda>i. (m + int i * tw, m + int i * tw + tw)) [0..<n]"
proof (rule nth_equalityI)
  show "length (window_bounds n m tw) = length (map (\<lambda>i. (m + int i * tw, m + int i * tw + tw)) [0..<n])"
    by simp
next
  fix i assume "i < length (window_bounds n m tw)"
  then have i: "i < n" by simp
  then have "(int i + 1) * tw \<le> int n * tw" using assms(1) by (intro mult_right_mono) simp_all
  then have "m + (int i + 1) * tw < 2 ^ 63" using assms(3) by linarith
  then show "window_bounds n m tw ! i = map (\<lambda>i. (m + int i * tw, m + int i * tw + tw)) [0..<n] ! i"
    using window_bounds_nth [OF assms(1,2) i] i by simp
qed

lemma split_loop_nth:
  assumes "0 \<le> tw" and "- (2 ^ 63) \<le> m" and "i < n" and "m + (int i + 1) * tw < 2 ^ 63"
  shows "split_loop n m tw data ! i =
           filter (\<lambda>r. m + int i * tw \<le> sampletimestamp r \<and> sampletimestamp r \<le> m + int i * tw + tw) data"
  using assms(3) by (simp add: split_loop_bounds window_bounds_nth [OF assms])

lemma min_stp_le: "r \<in> set data \<Longrightarrow> min_stp data \<le> sampletimestamp r"
  by (simp add: min_stp_def)

lemma max_stp_ge: "r \<in> set data \<Longrightarrow> sampletimestamp r \<le> max_stp data"
  by (simp add: max_stp_def)

lemma min_stp_in: "data \<noteq> [] \<Longrightarrow> min_stp data \<in> sampletimestamp ` set data"
  using Min_in [of "set (map sampletimestamp data)"] by (simp add: min_stp_def)

lemma max_stp_in: "data \<noteq> [] \<Longrightarrow> max_stp data \<in> sampletimestamp ` set data"
  using Max_in [of "set (map sampletimestamp data)"] by (simp add: max_stp_def)

lemma min_le_max_stp: "data \<noteq> [] \<Longrightarrow> min_stp data \<le> max_stp data"
proof -
  assume "data \<noteq> []"
  then obtain r where "r \<in> set data" by (cases data) auto
  then show ?thesis using min_stp_le max_stp_ge by (meson order_trans)
qed

lemma min_stp_int64:
  assumes "data \<noteq> []" and "\<forall>r \<in> set data. int64 (sampletimestamp r)"
  shows "int64 (min_stp data)"
  using min_stp_in [OF assms(1)] assms(2) by auto

lemma max_stp_int64:
  assumes "data \<noteq> []" and "\<forall>r \<in> set data. int64 (sampletimestamp r)"
  shows "int64 (max_stp data)"
  using max_stp_in [OF assms(1)] assms(2) by auto

lemma df_s_exact:
  assumes "data \<noteq> []" and "0 < tw" and "tw < 2 ^ 53" and "max_stp data - min_stp data < 2 ^ 53"
  shows "df_s data tw = Inr ((max_stp data - min_stp data) div tw + 1)"
proof -
  have nn: "0 \<le> max_stp data - min_stp data" using min_le_max_stp [OF assms(1)] by simp
  then have "int64 (max_stp data - min_stp data)" using assms(4) by (simp add: int64_def)
  then have "wrap64 (max_stp data - min_stp data) = max_stp data - min_stp data" by (rule wrap64_id)
  then show ?thesis using int_truediv_exact [OF nn assms(4,2,3)] by (simp add: df_s_def)
qed

lemma df_s_exact_neg:
  assumes "data \<noteq> []" and "tw < 0" and "- (2 ^ 53) < tw" and "max_stp data - min_stp data < 2 ^ 53"
  shows "df_s data tw = Inr (- ((max_stp data - min_stp data) div (- tw)) + 1)"
proof -
  have nn: "0 \<le> max_stp data - min_stp data" using min_le_max_stp [OF assms(1)] by simp
  then have "int64 (max_stp data - min_stp data)" using assms(4) by (simp add: int64_def)
  then have "wrap64 (max_stp data - min_stp data) = max_stp data - min_stp data" by (rule wrap64_id)
  then show ?thesis using int_truediv_exact_neg [OF nn assms(4,2,3)] by (simp add: df_s_def)
qed

lemma window_count_bound:
  fixes a tw :: int
  assumes "0 \<le> a" and "0 < tw"
  shows "int (nat (a div tw + 1)) * tw \<le> a + tw"
proof -
  have nn: "0 \<le> a div tw" using assms by (simp add: pos_imp_zdiv_nonneg_iff)
  have e: "tw * (a div tw) + a mod tw = a" by (rule mult_div_mod_eq)
  have "0 \<le> a mod tw" using assms(2) by simp
  then have "tw * (a div tw) \<le> a" using e by linarith
  moreover have "int (nat (a div tw + 1)) * tw = tw * (a div tw) + tw" using nn by (simp add: algebra_simps)
  ultimately show ?thesis by linarith
qed

lemma dataframe_split_exact:
  assumes "data \<noteq> []" and "\<forall>r \<in> set data. int64 (sampletimestamp r)"
    and "0 < tw" and "tw < 2 ^ 53" and "max_stp data - min_stp data < 2 ^ 53"
    and "max_stp data + tw < 2 ^ 63"
  shows "dataframe_split data tw =
           Inr (map (\<lambda>(lo, hi). filter (\<lambda>r. lo \<le> sampletimestamp r \<and> sampletimestamp r \<le> hi) data)
                  (window_bounds (nat ((max_stp data - min_stp data) div tw + 1)) (min_stp data) tw))"
    and "window_bounds (nat ((max_stp data - min_stp data) div tw + 1)) (min_stp data) tw =
           map (\<lambda>i. (min_stp data + int i * tw, min_stp data + int i * tw + tw))
             [0..<nat ((max_stp data - min_stp data) div tw + 1)]"
proof -
  show "dataframe_split data tw =
           Inr (map (\<lambda>(lo, hi). filter (\<lambda>r. lo \<le> sampletimestamp r \<and> sampletimestamp r \<le> hi) data)
                  (window_bounds (nat ((max_stp data - min_stp data) div tw + 1)) (min_stp data) tw))"
    using assms(1) by (simp add: dataframe_split_def df_s_exact [OF assms(1,3,4,5)] split_loop_bounds)
  have nn: "0 \<le> max_stp data - min_stp data" using min_le_max_stp [OF assms(1)] by simp
  have "int (nat ((max_stp data - min_stp data) div tw + 1)) * tw \<le> max_stp data - min_stp data + tw"
    using nn assms(3) by (rule window_count_bound)
  then have top: "min_stp data + int (nat ((max_stp data - min_stp data) div tw + 1)) * tw < 2 ^ 63"
    using assms(6) by linarith
  have low: "- (2 ^ 63) \<le> min_stp data"
    using min_stp_int64 [OF assms(1,2)] by (simp add: int64_def)
  show "window_bounds (nat ((max_stp data - min_stp data) div tw + 1)) (min_stp data) tw =
           map (\<lambda>i. (min_stp data + int i * tw, min_stp data + int i * tw + tw))
             [0..<nat ((max_stp data - min_stp data) div tw + 1)]"
    using assms(3) low top by (intro window_bounds_nowrap) simp_all
qed

lemma window_cover:
  fixes t :: int
  assumes "0 < tw" "mn \<le> t" "t \<le> mx"
  shows "\<exists>i < nat ((mx - mn) div tw + 1). mn + int i * tw \<le> t \<and> t \<le> mn + int i * tw + tw"
proof -
  let ?i = "nat ((t - mn) div tw)"
  have nn: "0 \<le> (t - mn) div tw" using assms by (simp add: pos_imp_zdiv_nonneg_iff)
  have le: "(t - mn) div tw \<le> (mx - mn) div tw" using assms by (simp add: zdiv_mono1)
  have "?i < nat ((mx - mn) div tw + 1)" using nn le by linarith
  moreover have "mn + int ?i * tw \<le> t \<and> t \<le> mn + int ?i * tw + tw"
  proof -
    have e: "tw * ((t - mn) div tw) + (t - mn) mod tw = t - mn" by (rule mult_div_mod_eq)
    have "0 \<le> (t - mn) mod tw" "(t - mn) mod tw < tw" using assms(1) by simp_all
    moreover have "int ?i * tw = tw * ((t - mn) div tw)" using nn by simp
    ultimately show ?thesis using e by linarith
  qed
  ultimately show ?thesis by blast
qed

lemma row_simps [simp]:
  "user_id (row u t a) = u" "sampletimestamp (row u t a) = t"
  "short_range_communication_area (row u t a) = a"
  by (simp_all add: row_def)

lemma row_eq [simp]: "row u t a = row u' t' a' \<longleftrightarrow> u = u' \<and> t = t' \<and> a = a'"
  by (auto simp: row_def)

lemma ex_min: "min_stp [row 0 0 0, row 1 150 1, row 2 150 1] = 0"
  by (simp add: min_stp_def)

lemma ex_max: "max_stp [row 0 0 0, row 1 150 1, row 2 150 1] = 150"
  by (simp add: max_stp_def)

lemma ex_dataframe_split:
  "dataframe_split [row 0 0 0, row 1 150 1, row 2 150 1] 150 =
     Inr [[row 0 0 0, row 1 150 1, row 2 150 1], [row 1 150 1, row 2 150 1]]"
proof -
  have "wrap64 150 = 150" by (simp add: wrap64_def)
  moreover have "int_truediv 150 150 = Inr (150 div 150)" by (rule int_truediv_exact) simp_all
  ultimately have "df_s [row 0 0 0, row 1 150 1, row 2 150 1] 150 = Inr 2"
    by (simp add: df_s_def ex_min ex_max)
  then show ?thesis
    by (simp add: dataframe_split_def ex_min in_window_def wrap64_def numeral_2_eq_2)
qed

text \<open>
  C3, as stated, fails at the ends of the number ranges the code computes in.
  Two rows at \<open>2^63 - 100\<close> and \<open>2^63 - 1\<close> with \<open>tw = 150\<close>: the upper bound of the only
  window wraps around to \<open>-2^63 + 50\<close>, the window holds no row and does not cover
  \<open>[min, max]\<close>. Two rows at \<open>0\<close> and \<open>2^53\<close> with \<open>tw = 2^53 + 1\<close>: the float64 quotient
  rounds up to \<open>1.0\<close>, so there are two windows, not \<open>(max - min) div tw + 1 = 1\<close>.
\<close>

theorem window_range_counterexample:
  "dataframe_split [row 0 9223372036854775708 0, row 1 9223372036854775807 0] 150 = Inr [[]]
   \<and> window_bounds 1 9223372036854775708 150 = [(9223372036854775708, - 9223372036854775758)]
   \<and> df_s [row 0 0 0, row 1 9007199254740992 0] 9007199254740993 = Inr 2
   \<and> (9007199254740992 - 0) div 9007199254740993 + 1 = (1::int)"
proof -
  have m: "min_stp [row 0 9223372036854775708 0, row 1 9223372036854775807 0] = 9223372036854775708"
    "max_stp [row 0 9223372036854775708 0, row 1 9223372036854775807 0] = 9223372036854775807"
    by (simp_all add: min_stp_def max_stp_def)
  have "int_truediv 99 150 = Inr (99 div 150)" by (rule int_truediv_exact) simp_all
  then have "df_s [row 0 9223372036854775708 0, row 1 9223372036854775807 0] 150 = Inr 1"
    by (simp add: df_s_def m wrap64_def)
  then have 1: "dataframe_split [row 0 9223372036854775708 0, row 1 9223372036854775807 0] 150 = Inr [[]]"
    by (simp add: dataframe_split_def m in_window_def wrap64_def)
  have 2: "window_bounds 1 9223372036854775708 150 = [(9223372036854775708, - 9223372036854775758)]"
    by (simp add: wrap64_def)
  have m': "min_stp [row 0 0 0, row 1 9007199254740992 0] = 0"
    "max_stp [row 0 0 0, row 1 9007199254740992 0] = 9007199254740992"
    by (simp_all add: min_stp_def max_stp_def)
  have 3: "df_s [row 0 0 0, row 1 9007199254740992 0] 9007199254740993 = Inr 2"
    by (simp add: df_s_def m' wrap64_def int_truediv_rounds_up)
  have 4: "(9007199254740992 - 0) div 9007199254740993 + 1 = (1::int)" by simp
  from 1 2 3 4 show ?thesis by blast
qed

text \<open>
  C3, amended. For a record set that is not empty, of int64 timestamps, and a window
  width \<open>0 < tw < 2^53\<close>, with \<open>max - min < 2^53\<close> and \<open>max + tw < 2^63\<close> (so that the
  quotient is exact and no window bound overflows), where \<open>min\<close> and \<open>max\<close> are the least
  and the greatest timestamp of the data: \<open>dataframe_split\<close> returns one partition per
  window of the loop, the rows within the window's two bounds; there are
  \<open>(max - min) div tw + 1\<close> windows; window \<open>i\<close> is \<open>[min + i * tw, min + i * tw + tw]\<close>,
  so the starts advance by \<open>tw\<close> from \<open>min\<close> and increase strictly; every instant of
  \<open>[min, max]\<close> lies in some window, and every row in some partition.
\<close>

theorem dataframe_split_windows:
  assumes "data \<noteq> []" and "\<forall>r \<in> set data. int64 (sampletimestamp r)"
    and "0 < tw" and "tw < 2 ^ 53" and "max_stp data - min_stp data < 2 ^ 53"
    and "max_stp data + tw < 2 ^ 63"
  shows "min_stp data \<in> sampletimestamp ` set data \<and> max_stp data \<in> sampletimestamp ` set data
       \<and> (\<forall>r \<in> set data. min_stp data \<le> sampletimestamp r \<and> sampletimestamp r \<le> max_stp data)
       \<and> dataframe_split data tw =
           Inr (map (\<lambda>(lo, hi). filter (\<lambda>r. lo \<le> sampletimestamp r \<and> sampletimestamp r \<le> hi) data)
                  (window_bounds (nat ((max_stp data - min_stp data) div tw + 1)) (min_stp data) tw))
       \<and> int (length (window_bounds (nat ((max_stp data - min_stp data) div tw + 1)) (min_stp data) tw))
           = (max_stp data - min_stp data) div tw + 1
       \<and> window_bounds (nat ((max_stp data - min_stp data) div tw + 1)) (min_stp data) tw
           = map (\<lambda>i. (min_stp data + int i * tw, min_stp data + int i * tw + tw))
               [0..<nat ((max_stp data - min_stp data) div tw + 1)]
       \<and> sorted_wrt (<) (map fst (window_bounds (nat ((max_stp data - min_stp data) div tw + 1)) (min_stp data) tw))
       \<and> (\<forall>t. min_stp data \<le> t \<and> t \<le> max_stp data \<longrightarrow>
             (\<exists>(lo, hi) \<in> set (window_bounds (nat ((max_stp data - min_stp data) div tw + 1)) (min_stp data) tw).
                lo \<le> t \<and> t \<le> hi))
       \<and> (\<forall>r \<in> set data.
             \<exists>(lo, hi) \<in> set (window_bounds (nat ((max_stp data - min_stp data) div tw + 1)) (min_stp data) tw).
                r \<in> set (filter (\<lambda>r. lo \<le> sampletimestamp r \<and> sampletimestamp r \<le> hi) data))"
proof -
  let ?mn = "min_stp data" and ?mx = "max_stp data"
  let ?n = "nat ((?mx - ?mn) div tw + 1)"
  have le: "?mn \<le> ?mx" using assms(1) by (rule min_le_max_stp)
  have nn: "0 \<le> (?mx - ?mn) div tw" using le assms(3) by (simp add: pos_imp_zdiv_nonneg_iff)
  have 0: "?mn \<in> sampletimestamp ` set data \<and> ?mx \<in> sampletimestamp ` set data"
    using min_stp_in [OF assms(1)] max_stp_in [OF assms(1)] by simp
  have 00: "\<forall>r \<in> set data. ?mn \<le> sampletimestamp r \<and> sampletimestamp r \<le> ?mx"
    using min_stp_le max_stp_ge by blast
  have 1: "dataframe_split data tw =
           Inr (map (\<lambda>(lo, hi). filter (\<lambda>r. lo \<le> sampletimestamp r \<and> sampletimestamp r \<le> hi) data)
                  (window_bounds ?n ?mn tw))"
    using assms by (rule dataframe_split_exact(1))
  have 3: "window_bounds ?n ?mn tw = map (\<lambda>i. (?mn + int i * tw, ?mn + int i * tw + tw)) [0..<?n]"
    using assms by (rule dataframe_split_exact(2))
  have 2: "int (length (window_bounds ?n ?mn tw)) = (?mx - ?mn) div tw + 1"
    using nn by simp
  have 4: "sorted_wrt (<) (map fst (window_bounds ?n ?mn tw))"
    unfolding 3 using assms(3) by (simp add: comp_def sorted_wrt_map sorted_wrt_iff_nth_less)
  have 5: "\<forall>t. ?mn \<le> t \<and> t \<le> ?mx \<longrightarrow> (\<exists>(lo, hi) \<in> set (window_bounds ?n ?mn tw). lo \<le> t \<and> t \<le> hi)"
  proof (intro allI impI)
    fix t assume "?mn \<le> t \<and> t \<le> ?mx"
    then obtain i where "i < ?n" "?mn + int i * tw \<le> t \<and> t \<le> ?mn + int i * tw + tw"
      using window_cover [OF assms(3), of ?mn t ?mx] by blast
    then show "\<exists>(lo, hi) \<in> set (window_bounds ?n ?mn tw). lo \<le> t \<and> t \<le> hi"
      unfolding 3 by (intro bexI [of _ "(?mn + int i * tw, ?mn + int i * tw + tw)"]) auto
  qed
  have 6: "\<forall>r \<in> set data. \<exists>(lo, hi) \<in> set (window_bounds ?n ?mn tw).
             r \<in> set (filter (\<lambda>r. lo \<le> sampletimestamp r \<and> sampletimestamp r \<le> hi) data)"
  proof
    fix r assume r: "r \<in> set data"
    then have "?mn \<le> sampletimestamp r \<and> sampletimestamp r \<le> ?mx" using 00 by blast
    then obtain b where "b \<in> set (window_bounds ?n ?mn tw)"
      "case b of (lo, hi) \<Rightarrow> lo \<le> sampletimestamp r \<and> sampletimestamp r \<le> hi"
      using 5 by blast
    then show "\<exists>(lo, hi) \<in> set (window_bounds ?n ?mn tw).
             r \<in> set (filter (\<lambda>r. lo \<le> sampletimestamp r \<and> sampletimestamp r \<le> hi) data)"
      using r by (intro bexI [of _ b]) auto
  qed
  from 0 00 1 2 3 4 5 6 show ?thesis by blast
qed

theorem dataframe_split_windows_witness:
  "[row 0 0 0, row 1 150 1, row 2 150 1] \<noteq> []
   \<and> (0::int) < 150 \<and> (150::int) < 2 ^ 53
   \<and> max_stp [row 0 0 0, row 1 150 1, row 2 150 1] - min_stp [row 0 0 0, row 1 150 1, row 2 150 1] < 2 ^ 53
   \<and> max_stp [row 0 0 0, row 1 150 1, row 2 150 1] + 150 < 2 ^ 63
   \<and> dataframe_split [row 0 0 0, row 1 150 1, row 2 150 1] 150 =
       Inr [[row 0 0 0, row 1 150 1, row 2 150 1], [row 1 150 1, row 2 150 1]]
   \<and> window_bounds 2 0 150 = [(0, 150), (150, 300)]"
proof -
  have h1: "[row 0 0 0, row 1 150 1, row 2 150 1] \<noteq> []" by simp
  have h2: "\<forall>r \<in> set [row 0 0 0, row 1 150 1, row 2 150 1]. int64 (sampletimestamp r)"
    by (simp add: int64_def)
  have h3: "(0::int) < 150" and h4: "(150::int) < 2 ^ 53" by simp_all
  have h5: "max_stp [row 0 0 0, row 1 150 1, row 2 150 1] - min_stp [row 0 0 0, row 1 150 1, row 2 150 1] < 2 ^ 53"
    by (simp add: ex_min ex_max)
  have h6: "max_stp [row 0 0 0, row 1 150 1, row 2 150 1] + 150 < 2 ^ 63" by (simp add: ex_max)
  have n: "nat ((150 - 0) div 150 + 1) = 2" by simp
  have "dataframe_split [row 0 0 0, row 1 150 1, row 2 150 1] 150 =
           Inr (map (\<lambda>(lo, hi). filter (\<lambda>r. lo \<le> sampletimestamp r \<and> sampletimestamp r \<le> hi)
                                    [row 0 0 0, row 1 150 1, row 2 150 1])
                  (window_bounds 2 0 150))
        \<and> window_bounds 2 0 150 = map (\<lambda>i. (0 + int i * 150, 0 + int i * 150 + 150)) [0..<2]"
    using dataframe_split_windows [OF h1 h2 h3 h4 h5 h6] unfolding ex_min ex_max n by blast
  moreover have "map (\<lambda>i. (0 + int i * 150, 0 + int i * 150 + 150)) [0..<2] = [(0, 150), (150, 300)]"
    by (simp add: numeral_2_eq_2)
  ultimately have "dataframe_split [row 0 0 0, row 1 150 1, row 2 150 1] 150 =
       Inr [[row 0 0 0, row 1 150 1, row 2 150 1], [row 1 150 1, row 2 150 1]]
     \<and> window_bounds 2 0 150 = [(0, 150), (150, 300)]"
    by simp
  then show ?thesis using h1 h3 h4 h5 h6 by blast
qed

text \<open>
  C4, as stated, fails: a negative width is not rejected. On one row and \<open>tw = -150\<close>
  the split returns normally, with one (empty) partition.
\<close>

theorem negative_tw_not_rejected: "dataframe_split [row 0 0 0] (- 150) = Inr [[]]"
proof -
  have "int_truediv 0 (- 150) = Inr (- (0 div (- (- 150))))" by (rule int_truediv_exact_neg) simp_all
  then have "df_s [row 0 0 0] (- 150) = Inr 1"
    by (simp add: df_s_def min_stp_def max_stp_def wrap64_def)
  then show ?thesis
    by (simp add: dataframe_split_def min_stp_def in_window_def wrap64_def)
qed

text \<open>
  C4, amended. \<open>dataframe_split\<close> has no check of \<open>tw\<close>. On a record set that is not empty,
  of int64 timestamps: \<open>tw = 0\<close> fails in the computation of the window count, before
  any partition is made (ValueError when all timestamps are equal, OverflowError
  otherwise); \<open>-2^53 < tw < 0\<close>, with \<open>max - min < 2^53\<close> and \<open>min + tw\<close> not below
  \<open>-2^63\<close>, raises nothing and returns at most one partition, and that partition is
  empty.
\<close>

theorem dataframe_split_nonpositive_tw:
  assumes "data \<noteq> []" and "\<forall>r \<in> set data. int64 (sampletimestamp r)"
  shows "(tw = 0 \<longrightarrow> dataframe_split data tw =
            Inl (if max_stp data = min_stp data then ValueError else OverflowError))
       \<and> (tw < 0 \<and> - (2 ^ 53) < tw \<and> max_stp data - min_stp data < 2 ^ 53
            \<and> - (2 ^ 63) \<le> min_stp data + tw
          \<longrightarrow> (\<exists>parts. dataframe_split data tw = Inr parts \<and> length parts \<le> 1
                 \<and> (\<forall>p \<in> set parts. p = [])))"
proof (intro conjI impI)
  assume "tw = 0"
  have mn: "int64 (min_stp data)" and mx: "int64 (max_stp data)"
    using min_stp_int64 [OF assms] max_stp_int64 [OF assms] by simp_all
  have le: "min_stp data \<le> max_stp data" using assms(1) by (rule min_le_max_stp)
  have "wrap64 (max_stp data - min_stp data) = 0 \<longleftrightarrow> max_stp data = min_stp data"
  proof (cases "max_stp data - min_stp data < 2 ^ 63")
    case True
    then have "int64 (max_stp data - min_stp data)" using le by (simp add: int64_def)
    then show ?thesis by (simp add: wrap64_id)
  next
    case False
    define x where "x = max_stp data - min_stp data"
    have x: "2 ^ 63 \<le> x" "x < 2 ^ 64" using False mn mx by (simp_all add: x_def int64_def)
    have "wrap64 x = x - 2 ^ 64" using x by (rule wrap64_high)
    then have "wrap64 x \<noteq> 0" using x(2) by simp
    moreover have "max_stp data \<noteq> min_stp data" using x(1) by (auto simp: x_def)
    ultimately show ?thesis by (simp add: x_def)
  qed
  then show "dataframe_split data tw = Inl (if max_stp data = min_stp data then ValueError else OverflowError)"
    using assms(1) \<open>tw = 0\<close> by (simp add: dataframe_split_def df_s_def int_truediv_def)
next
  assume h: "tw < 0 \<and> - (2 ^ 53) < tw \<and> max_stp data - min_stp data < 2 ^ 53
            \<and> - (2 ^ 63) \<le> min_stp data + tw"
  then have neg: "tw < 0" by simp
  let ?q = "- ((max_stp data - min_stp data) div (- tw))"
  have le: "min_stp data \<le> max_stp data" using assms(1) by (rule min_le_max_stp)
  have q: "?q \<le> 0" using le neg by (simp add: pos_imp_zdiv_nonneg_iff)
  have "df_s data tw = Inr (?q + 1)" using assms(1) h by (intro df_s_exact_neg) simp_all
  then have eq: "dataframe_split data tw = Inr (split_loop (nat (?q + 1)) (min_stp data) tw data)"
    using assms(1) by (simp add: dataframe_split_def)
  have "int64 (min_stp data)" using min_stp_int64 [OF assms] .
  then have "int64 (min_stp data + tw)" using h by (simp add: int64_def)
  then have w: "wrap64 (min_stp data + tw) = min_stp data + tw" by (rule wrap64_id)
  have empty: "filter (in_window (min_stp data) tw) data = []"
    using neg by (auto simp: filter_empty_conv in_window_def w dest!: min_stp_le)
  have "nat (?q + 1) = 0 \<or> nat (?q + 1) = Suc 0" using q by linarith
  then have "length (split_loop (nat (?q + 1)) (min_stp data) tw data) \<le> 1
       \<and> (\<forall>p \<in> set (split_loop (nat (?q + 1)) (min_stp data) tw data). p = [])"
    using empty by auto
  with eq show "\<exists>parts. dataframe_split data tw = Inr parts \<and> length parts \<le> 1 \<and> (\<forall>p \<in> set parts. p = [])"
    by blast
qed

theorem dataframe_split_nonpositive_tw_witness:
  "[row 0 0 0, row 1 200 0] \<noteq> []
   \<and> dataframe_split [row 0 0 0, row 1 200 0] 0 = Inl OverflowError
   \<and> dataframe_split [row 0 0 0] 0 = Inl ValueError
   \<and> (\<exists>parts. dataframe_split [row 0 0 0, row 1 200 0] (- 150) = Inr parts \<and> length parts \<le> 1
         \<and> (\<forall>p \<in> set parts. p = []))"
proof -
  have h: "[row 0 0 0, row 1 200 0] \<noteq> []" and h': "[row 0 0 0] \<noteq> []" by simp_all
  have i: "\<forall>r \<in> set [row 0 0 0, row 1 200 0]. int64 (sampletimestamp r)"
    and i': "\<forall>r \<in> set [row 0 0 0]. int64 (sampletimestamp r)"
    by (simp_all add: int64_def)
  have m: "max_stp [row 0 0 0, row 1 200 0] = 200" "min_stp [row 0 0 0, row 1 200 0] = 0"
    "max_stp [row 0 0 0] = min_stp [row 0 0 0]"
    by (simp_all add: min_stp_def max_stp_def)
  have r: "(- 150 :: int) < 0 \<and> - (2 ^ 53) < (- 150 :: int)
      \<and> max_stp [row 0 0 0, row 1 200 0] - min_stp [row 0 0 0, row 1 200 0] < 2 ^ 53
      \<and> - (2 ^ 63) \<le> min_stp [row 0 0 0, row 1 200 0] + (- 150)"
    by (simp add: m)
  show ?thesis
    using dataframe_split_nonpositive_tw [OF h i, of 0] dataframe_split_nonpositive_tw [OF h' i', of 0]
      dataframe_split_nonpositive_tw [OF h i, of "- 150"] m r h
    by simp
qed

section \<open>Properties of get_intersections\<close>

lemma set_unique [simp]: "set (unique xs) = set xs"
  by (induction xs rule: unique.induct) auto

lemma distinct_unique [simp]: "distinct (unique xs)"
  by (induction xs rule: unique.induct) auto

lemma subject_loop_Cons:
  "subject_loop intersects df (subject # other_users) =
     [intersection_row i j.
        i \<leftarrow> df_dfs df subject, usr \<leftarrow> other_users, j \<leftarrow> df_dfs df usr,
        intersects (short_range_communication_area i) (short_range_communication_area j)]
     @ subject_loop intersects df other_users"
  by (cases other_users) simp_all

lemma ordered_positions_Cons:
  "(\<exists>k l. k < l \<and> l < length (x # xs) \<and> (x # xs) ! k = u \<and> (x # xs) ! l = v) \<longleftrightarrow>
   (u = x \<and> v \<in> set xs) \<or> (\<exists>k l. k < l \<and> l < length xs \<and> xs ! k = u \<and> xs ! l = v)"
  (is "?L \<longleftrightarrow> ?A \<or> ?B")
proof
  assume ?L
  then obtain k l where kl: "k < l" "l < length (x # xs)" "(x # xs) ! k = u" "(x # xs) ! l = v"
    by blast
  then obtain l' where l': "l = Suc l'" by (cases l) auto
  show "?A \<or> ?B"
  proof (cases k)
    case 0
    then show ?thesis using kl l' by auto
  next
    case (Suc k')
    then have "k' < l' \<and> l' < length xs \<and> xs ! k' = u \<and> xs ! l' = v" using kl l' by auto
    then show ?thesis by blast
  qed
next
  assume "?A \<or> ?B"
  then show ?L
  proof
    assume ?A
    then obtain l' where "l' < length xs" "xs ! l' = v" by (auto simp: in_set_conv_nth)
    with \<open>?A\<close> have "0 < Suc l' \<and> Suc l' < length (x # xs) \<and> (x # xs) ! 0 = u \<and> (x # xs) ! Suc l' = v"
      by simp
    then show ?L by blast
  next
    assume ?B
    then obtain k l where "k < l" "l < length xs" "xs ! k = u" "xs ! l = v" by blast
    then have "Suc k < Suc l \<and> Suc l < length (x # xs) \<and> (x # xs) ! Suc k = u \<and> (x # xs) ! Suc l = v"
      by simp
    then show ?L by blast
  qed
qed

lemma in_subject_loop:
  "e \<in> set (subject_loop intersects df users) \<longleftrightarrow>
   (\<exists>i \<in> set df. \<exists>j \<in> set df. e = intersection_row i j
      \<and> intersects (short_range_communication_area i) (short_range_communication_area j)
      \<and> (\<exists>k l. k < l \<and> l < length users \<and> users ! k = user_id i \<and> users ! l = user_id j))"
proof (induction users)
  case Nil
  show ?case by simp
next
  case (Cons x xs)
  show ?case
    unfolding subject_loop_Cons ordered_positions_Cons set_append Un_iff Cons.IH
    by (auto simp: df_dfs_def)
qed

lemma in_partition_intersections:
  "e \<in> set (partition_intersections intersects w) \<longleftrightarrow>
   (\<exists>i \<in> set w. \<exists>j \<in> set w. e = intersection_row i j
      \<and> intersects (short_range_communication_area i) (short_range_communication_area j)
      \<and> (\<exists>k l. k < l \<and> l < length (unique (map user_id w))
            \<and> unique (map user_id w) ! k = user_id i \<and> unique (map user_id w) ! l = user_id j))"
  by (simp add: partition_intersections_def in_subject_loop)

lemma intersection_row_sel [simp]:
  "uid_1 (intersection_row i j) = user_id i" "uid_2 (intersection_row i j) = user_id j"
  "timestamp_uid_1 (intersection_row i j) = sampletimestamp i"
  "timestamp_uid_2 (intersection_row i j) = sampletimestamp j"
  by (simp_all add: intersection_row_def)

lemma intersection_positions:
  fixes w :: "('f, 'g) trace list"
  assumes "e \<in> set (partition_intersections intersects w)"
  shows "\<exists>k l. k < l \<and> l < length (unique (map user_id w))
            \<and> unique (map user_id w) ! k = uid_1 e \<and> unique (map user_id w) ! l = uid_2 e"
proof -
  obtain i j :: "('f, 'g) trace" and k l where "e = intersection_row i j" "k < l" "l < length (unique (map user_id w))"
    "unique (map user_id w) ! k = user_id i" "unique (map user_id w) ! l = user_id j"
    using assms unfolding in_partition_intersections by blast
  then have "k < l \<and> l < length (unique (map user_id w))
            \<and> unique (map user_id w) ! k = uid_1 e \<and> unique (map user_id w) ! l = uid_2 e"
    by simp
  then show ?thesis by blast
qed

lemma distinct_nth_neq:
  "distinct xs \<Longrightarrow> k < l \<Longrightarrow> l < length xs \<Longrightarrow> xs ! k \<noteq> xs ! l"
  by (simp add: nth_eq_iff_index_eq)

lemma distinct_nth_inj:
  "distinct xs \<Longrightarrow> k < length xs \<Longrightarrow> l < length xs \<Longrightarrow> xs ! k = xs ! l \<Longrightarrow> k = l"
  by (simp add: nth_eq_iff_index_eq)

lemma intersection_not_self:
  assumes "e \<in> set (partition_intersections intersects w)"
  shows "uid_1 e \<noteq> uid_2 e"
proof -
  obtain k l where kl: "k < l" "l < length (unique (map user_id w))"
    "unique (map user_id w) ! k = uid_1 e" "unique (map user_id w) ! l = uid_2 e"
    using intersection_positions [OF assms] by blast
  have "unique (map user_id w) ! k \<noteq> unique (map user_id w) ! l"
    using kl(1,2) by (intro distinct_nth_neq) simp_all
  then show ?thesis unfolding kl(3,4) .
qed

lemma intersection_not_reversed:
  assumes "e \<in> set (partition_intersections intersects w)"
    and "e' \<in> set (partition_intersections intersects w)"
  shows "\<not> (uid_1 e' = uid_2 e \<and> uid_2 e' = uid_1 e)"
proof
  assume rev: "uid_1 e' = uid_2 e \<and> uid_2 e' = uid_1 e"
  let ?us = "unique (map user_id w)"
  obtain k l where kl: "k < l" "l < length ?us" "?us ! k = uid_1 e" "?us ! l = uid_2 e"
    using intersection_positions [OF assms(1)] by blast
  obtain k' l' where kl': "k' < l'" "l' < length ?us" "?us ! k' = uid_1 e'" "?us ! l' = uid_2 e'"
    using intersection_positions [OF assms(2)] by blast
  have d: "distinct ?us" by simp
  have "?us ! k' = ?us ! l" "?us ! l' = ?us ! k"
    unfolding kl(3,4) kl'(3,4) using rev by simp_all
  moreover have "k' < length ?us" "k < length ?us" using kl(1,2) kl'(1,2) by simp_all
  ultimately have "k' = l" "l' = k"
    using kl(2) kl'(2) distinct_nth_inj [OF distinct_unique, of _ "map user_id w"] by blast+
  then show False using kl(1) kl'(1) by simp
qed

lemma intersection_complete:
  assumes "i \<in> set w" "j \<in> set w" "user_id i \<noteq> user_id j"
    and "intersects (short_range_communication_area i) (short_range_communication_area j)"
    and "intersects (short_range_communication_area j) (short_range_communication_area i)"
  shows "intersection_row i j \<in> set (partition_intersections intersects w)
       \<or> intersection_row j i \<in> set (partition_intersections intersects w)"
proof -
  let ?us = "unique (map user_id w)"
  have "user_id i \<in> set ?us" "user_id j \<in> set ?us" using assms by simp_all
  then obtain k l where kl: "k < length ?us" "?us ! k = user_id i" "l < length ?us" "?us ! l = user_id j"
    by (auto simp: in_set_conv_nth simp del: set_unique)
  then have "k \<noteq> l" using assms(3) by auto
  then consider "k < l" | "l < k" by linarith
  then show ?thesis
  proof cases
    case 1
    then have "intersection_row i j \<in> set (partition_intersections intersects w)"
      unfolding in_partition_intersections using assms kl by blast
    then show ?thesis ..
  next
    case 2
    then have "intersection_row j i \<in> set (partition_intersections intersects w)"
      unfolding in_partition_intersections using assms kl by blast
    then show ?thesis ..
  qed
qed

lemma foldl_append_concat:
  "foldl (\<lambda>df_ac df. df_ac @ f df) acc dfs = acc @ concat (map f dfs)"
  by (induction dfs arbitrary: acc) simp_all

section \<open>Properties of get_colocations\<close>

lemma dataframe_split_150_Inr:
  "data \<noteq> [] \<Longrightarrow> \<exists>parts. dataframe_split data 150 = Inr parts"
  by (simp add: dataframe_split_def df_s_def int_truediv_def)

lemma dataframe_split_empty: "dataframe_split [] tw = Inl ValueError"
  by (simp add: dataframe_split_def)

lemma get_intersections_Inr:
  "dataframe_split data 150 = Inr parts \<Longrightarrow>
   get_intersections intersects data = Inr (map (partition_intersections intersects) parts)"
  by (simp add: get_intersections_def)

lemma get_intersections_Inl:
  "dataframe_split data 150 = Inl e \<Longrightarrow> get_intersections intersects data = Inl e"
  by (simp add: get_intersections_def)

lemma get_colocations_Inr:
  "dataframe_split data 150 = Inr parts \<Longrightarrow>
   get_colocations to_list intersects data =
     Inr (concat (map (\<lambda>w. df_coloc to_list (partition_intersections intersects w)) parts))"
  by (simp add: get_colocations_def get_intersections_Inr foldl_append_concat comp_def)

lemma get_colocations_Inl:
  "dataframe_split data 150 = Inl e \<Longrightarrow> get_colocations to_list intersects data = Inl e"
  by (simp add: get_colocations_def get_intersections_Inl)

lemma in_couple_coloc:
  "c \<in> set (couple_coloc df couple) \<Longrightarrow>
   (node_1 c = fst couple \<and> node_2 c = snd couple) \<or> (node_1 c = snd couple \<and> node_2 c = fst couple)"
  by (auto simp: couple_coloc_def)

lemma users_couples_set:
  "set_iteration to_list \<Longrightarrow>
   set (users_couples to_list df) = (\<lambda>e. (uid_1 e, uid_2 e)) ` set df"
  by (simp add: users_couples_def set_iteration_def)

lemma users_couples_distinct:
  "set_iteration to_list \<Longrightarrow> distinct (users_couples to_list df)"
  by (simp add: users_couples_def set_iteration_def)

lemma in_df_coloc:
  assumes "set_iteration to_list" and "c \<in> set (df_coloc to_list df)"
  shows "\<exists>e \<in> set df. (node_1 c = uid_1 e \<and> node_2 c = uid_2 e) \<or> (node_1 c = uid_2 e \<and> node_2 c = uid_1 e)"
proof -
  obtain couple where cp: "couple \<in> set (users_couples to_list df)" "c \<in> set (couple_coloc df couple)"
    using assms(2) by (auto simp: df_coloc_def)
  then obtain e where "e \<in> set df" "couple = (uid_1 e, uid_2 e)"
    using users_couples_set [OF assms(1), of df] by auto
  then show ?thesis using in_couple_coloc [OF cp(2)] by auto
qed

text \<open>
  C7. No self-pairs: whatever the input, every row of every intersections dataframe
  returned by \<open>get_intersections\<close> has \<open>uid_1 \<noteq> uid_2\<close>, and every row of the table
  returned by \<open>get_colocations\<close> has \<open>node_1 \<noteq> node_2\<close>. (On the empty input both
  raise; on any other input both return, see \<open>dataframe_split_150_Inr\<close>.)
\<close>

theorem no_self_pairs:
  fixes data :: "('f, 'g) trace list"
  assumes "set_iteration to_list"
  shows "(\<forall>dfs. get_intersections intersects data = Inr dfs \<longrightarrow>
            (\<forall>df \<in> set dfs. \<forall>e \<in> set df. uid_1 e \<noteq> uid_2 e))
       \<and> (\<forall>out. get_colocations to_list intersects data = Inr out \<longrightarrow>
            (\<forall>c \<in> set out. node_1 c \<noteq> node_2 c))"
proof (cases "dataframe_split data 150")
  case (Inl e)
  then show ?thesis by (simp add: get_intersections_Inl get_colocations_Inl)
next
  case (Inr parts)
  have 1: "\<forall>df \<in> set (map (partition_intersections intersects) parts). \<forall>e \<in> set df. uid_1 e \<noteq> uid_2 e"
    using intersection_not_self by auto
  have 2: "\<forall>c \<in> set (concat (map (\<lambda>w. df_coloc to_list (partition_intersections intersects w)) parts)).
             node_1 c \<noteq> node_2 c"
  proof
    fix c assume "c \<in> set (concat (map (\<lambda>w. df_coloc to_list (partition_intersections intersects w)) parts))"
    then obtain w :: "('f, 'g) trace list"
      where "c \<in> set (df_coloc to_list (partition_intersections intersects w))" by auto
    then obtain e where "e \<in> set (partition_intersections intersects w)"
      "(node_1 c = uid_1 e \<and> node_2 c = uid_2 e) \<or> (node_1 c = uid_2 e \<and> node_2 c = uid_1 e)"
      using in_df_coloc [OF assms] by blast
    then show "node_1 c \<noteq> node_2 c" using intersection_not_self [of e intersects w] by auto
  qed
  show ?thesis
    unfolding get_intersections_Inr [OF Inr] get_colocations_Inr [OF Inr] using 1 2 by simp
qed

lemma set_iteration_remdups: "set_iteration remdups"
  by (simp add: set_iteration_def)

lemma ex_get_intersections:
  "get_intersections (=) [row 0 0 0, row 1 150 1, row 2 150 1] =
     Inr [[\<lparr>uid_1 = 1, timestamp_uid_1 = 150, uid_2 = 2, timestamp_uid_2 = 150\<rparr>],
          [\<lparr>uid_1 = 1, timestamp_uid_1 = 150, uid_2 = 2, timestamp_uid_2 = 150\<rparr>]]"
  by (simp add: get_intersections_def ex_dataframe_split
      partition_intersections_def df_dfs_def intersection_row_def)

lemma ex_get_colocations:
  "get_colocations remdups (=) [row 0 0 0, row 1 150 1, row 2 150 1] =
     Inr [\<lparr>node_1 = 1, node_2 = 2, timestamp = 150, connection = ''up''\<rparr>,
          \<lparr>node_1 = 1, node_2 = 2, timestamp = 150, connection = ''down''\<rparr>,
          \<lparr>node_1 = 2, node_2 = 1, timestamp = 150, connection = ''up''\<rparr>,
          \<lparr>node_1 = 2, node_2 = 1, timestamp = 150, connection = ''down''\<rparr>,
          \<lparr>node_1 = 1, node_2 = 2, timestamp = 150, connection = ''up''\<rparr>,
          \<lparr>node_1 = 1, node_2 = 2, timestamp = 150, connection = ''down''\<rparr>,
          \<lparr>node_1 = 2, node_2 = 1, timestamp = 150, connection = ''up''\<rparr>,
          \<lparr>node_1 = 2, node_2 = 1, timestamp = 150, connection = ''down''\<rparr>]"
  by (simp add: get_colocations_def ex_get_intersections df_coloc_def users_couples_def
      couple_coloc_def df_time_def)

theorem no_self_pairs_witness:
  "set_iteration (remdups :: (int \<times> int) list \<Rightarrow> (int \<times> int) list)
   \<and> (\<exists>dfs. get_intersections (=) [row 0 0 0, row 1 150 1, row 2 150 1] = Inr dfs
         \<and> dfs \<noteq> [] \<and> hd dfs \<noteq> []
         \<and> (\<forall>df \<in> set dfs. \<forall>e \<in> set df. uid_1 e \<noteq> uid_2 e))
   \<and> (\<exists>out. get_colocations remdups (=) [row 0 0 0, row 1 150 1, row 2 150 1] = Inr out
         \<and> out \<noteq> [] \<and> (\<forall>c \<in> set out. node_1 c \<noteq> node_2 c))"
proof -
  have h: "set_iteration (remdups :: (int \<times> int) list \<Rightarrow> (int \<times> int) list)"
    by (rule set_iteration_remdups)
  show ?thesis
    using no_self_pairs [OF h, of "(=)" "[row 0 0 0, row 1 150 1, row 2 150 1]"] h
    unfolding ex_get_intersections ex_get_colocations by simp
qed

lemma pair_events_oriented:
  fixes w :: "('f, 'g) trace list"
  assumes "e \<in> set (partition_intersections intersects w)"
  shows "pair_events (partition_intersections intersects w) (uid_1 e) (uid_2 e) =
         filter (\<lambda>e'. uid_1 e' = uid_1 e \<and> uid_2 e' = uid_2 e) (partition_intersections intersects w)"
  unfolding pair_events_def
proof (rule filter_cong [OF refl])
  fix e' assume "e' \<in> set (partition_intersections intersects w)"
  then have "\<not> (uid_1 e' = uid_2 e \<and> uid_2 e' = uid_1 e)"
    using intersection_not_reversed [OF assms] by blast
  then show "({uid_1 e', uid_2 e'} = {uid_1 e, uid_2 e}) = (uid_1 e' = uid_1 e \<and> uid_2 e' = uid_2 e)"
    by (auto simp: doubleton_eq_iff)
qed

text \<open>
  C9. Orientation of the overlap events of a window: \<open>uid_1\<close> is the user found
  earlier in the window's list of users (\<open>unique\<close> of the \<open>user_id\<close> column) and
  \<open>uid_2\<close> the one found later; so every event of the same unordered pair has the same
  orientation, and selecting by the ordered key \<open>(uid_1, uid_2)\<close> selects the events of
  the unordered pair.
\<close>

theorem overlap_orientation:
  fixes w :: "('f, 'g) trace list"
  assumes "e \<in> set (partition_intersections intersects w)"
  shows "(\<exists>k l. k < l \<and> l < length (unique (map user_id w))
            \<and> unique (map user_id w) ! k = uid_1 e \<and> unique (map user_id w) ! l = uid_2 e)
       \<and> (\<forall>e' \<in> set (partition_intersections intersects w).
            {uid_1 e', uid_2 e'} = {uid_1 e, uid_2 e} \<longrightarrow> uid_1 e' = uid_1 e \<and> uid_2 e' = uid_2 e)
       \<and> filter (\<lambda>e'. uid_1 e' = uid_1 e \<and> uid_2 e' = uid_2 e) (partition_intersections intersects w)
           = filter (\<lambda>e'. {uid_1 e', uid_2 e'} = {uid_1 e, uid_2 e}) (partition_intersections intersects w)"
proof (intro conjI ballI impI)
  show "\<exists>k l. k < l \<and> l < length (unique (map user_id w))
            \<and> unique (map user_id w) ! k = uid_1 e \<and> unique (map user_id w) ! l = uid_2 e"
    using assms by (rule intersection_positions)
next
  fix e' assume e': "e' \<in> set (partition_intersections intersects w)"
    and same: "{uid_1 e', uid_2 e'} = {uid_1 e, uid_2 e}"
  have "\<not> (uid_1 e' = uid_2 e \<and> uid_2 e' = uid_1 e)"
    using intersection_not_reversed [OF assms e'] .
  with same show "uid_1 e' = uid_1 e" "uid_2 e' = uid_2 e" by (auto simp: doubleton_eq_iff)
next
  show "filter (\<lambda>e'. uid_1 e' = uid_1 e \<and> uid_2 e' = uid_2 e) (partition_intersections intersects w)
           = filter (\<lambda>e'. {uid_1 e', uid_2 e'} = {uid_1 e, uid_2 e}) (partition_intersections intersects w)"
    using pair_events_oriented [OF assms] by (simp add: pair_events_def)
qed

lemma filter_concat_map_single:
  assumes "distinct cs" and "c \<in> set cs" and "\<forall>x \<in> set (f c). P x"
    and "\<forall>c' \<in> set cs. c' \<noteq> c \<longrightarrow> (\<forall>x \<in> set (f c'). \<not> P x)"
  shows "filter P (concat (map f cs)) = f c"
  using assms
proof (induction cs)
  case Nil
  then show ?case by simp
next
  case (Cons d cs)
  show ?case
  proof (cases "d = c")
    case True
    then have "c \<notin> set cs" using Cons.prems(1) by simp
    then have "\<forall>c' \<in> set cs. \<forall>x \<in> set (f c'). \<not> P x" using Cons.prems(4) by auto
    then have "filter P (concat (map f cs)) = []" by (auto simp: filter_empty_conv)
    moreover have "filter P (f c) = f c" using Cons.prems(3) by (simp add: filter_id_conv)
    ultimately show ?thesis using True by simp
  next
    case False
    then have "c \<in> set cs" using Cons.prems(2) by simp
    moreover have "filter P (f d) = []" using False Cons.prems(4) by (auto simp: filter_empty_conv)
    ultimately show ?thesis using Cons by simp
  qed
qed

lemma pair_colocations_df_coloc:
  assumes it: "set_iteration to_list" and e: "e \<in> set df" and a: "uid_1 e = a" and b: "uid_2 e = b"
    and norev: "\<forall>e' \<in> set df. \<not> (uid_1 e' = b \<and> uid_2 e' = a) \<or> a = b"
  shows "pair_colocations (df_coloc to_list df) a b = couple_coloc df (a, b)"
  unfolding pair_colocations_def df_coloc_def
proof (rule filter_concat_map_single)
  show "distinct (users_couples to_list df)" using it by (rule users_couples_distinct)
  show "(a, b) \<in> set (users_couples to_list df)"
    using e a b unfolding users_couples_set [OF it] by force
  show "\<forall>x \<in> set (couple_coloc df (a, b)). {node_1 x, node_2 x} = {a, b}"
    by (auto simp: couple_coloc_def)
  show "\<forall>c' \<in> set (users_couples to_list df). c' \<noteq> (a, b) \<longrightarrow>
          (\<forall>x \<in> set (couple_coloc df c'). {node_1 x, node_2 x} \<noteq> {a, b})"
  proof (intro ballI impI)
    fix c' x
    assume c': "c' \<in> set (users_couples to_list df)" "c' \<noteq> (a, b)" and x: "x \<in> set (couple_coloc df c')"
    obtain e' where e': "e' \<in> set df" "c' = (uid_1 e', uid_2 e')"
      using c'(1) unfolding users_couples_set [OF it] by auto
    have "{node_1 x, node_2 x} = {fst c', snd c'}" using in_couple_coloc [OF x] by auto
    moreover have "{fst c', snd c'} \<noteq> {a, b}"
      using c'(2) e' norev by (auto simp: doubleton_eq_iff)
    ultimately show "{node_1 x, node_2 x} \<noteq> {a, b}" by simp
  qed
qed

lemma df_time_eq:
  "df_time df couple =
     map timestamp_uid_1 (filter (\<lambda>e. uid_1 e = fst couple \<and> uid_2 e = snd couple) df)
     @ map timestamp_uid_2 (filter (\<lambda>e. uid_1 e = fst couple \<and> uid_2 e = snd couple) df)"
  by (simp add: df_time_def Let_def)

lemma Min_le_Max_list: "xs \<noteq> [] \<Longrightarrow> Min (set xs) \<le> (Max (set xs) :: int)"
proof -
  assume "xs \<noteq> []"
  then obtain x where "x \<in> set xs" by (cases xs) auto
  then have "Min (set xs) \<le> x" "x \<le> Max (set xs)" by simp_all
  then show ?thesis by (rule order_trans)
qed

text \<open>
  C1. In every window, for every pair of users with an overlap event \<open>e\<close> there, the
  rows of the window's co-location table that concern the unordered pair are exactly
  four: \<open>(a, b, min, up)\<close>, \<open>(a, b, max, down)\<close>, \<open>(b, a, min, up)\<close>, \<open>(b, a, max, down)\<close>,
  with \<open>a = uid_1 e\<close>, \<open>b = uid_2 e\<close>, and \<open>min\<close>, \<open>max\<close> the least and greatest of all
  timestamps either side contributes to the pair's overlap events; and \<open>min \<le> max\<close>.
\<close>

theorem four_colocations_per_pair:
  fixes w :: "('f, 'g) trace list"
  assumes "set_iteration to_list" and "e \<in> set (partition_intersections intersects w)"
  shows "pair_colocations (df_coloc to_list (partition_intersections intersects w)) (uid_1 e) (uid_2 e) =
           [\<lparr>node_1 = uid_1 e, node_2 = uid_2 e,
              timestamp = Min (set (pair_timestamps (partition_intersections intersects w) (uid_1 e) (uid_2 e))),
              connection = ''up''\<rparr>,
            \<lparr>node_1 = uid_1 e, node_2 = uid_2 e,
              timestamp = Max (set (pair_timestamps (partition_intersections intersects w) (uid_1 e) (uid_2 e))),
              connection = ''down''\<rparr>,
            \<lparr>node_1 = uid_2 e, node_2 = uid_1 e,
              timestamp = Min (set (pair_timestamps (partition_intersections intersects w) (uid_1 e) (uid_2 e))),
              connection = ''up''\<rparr>,
            \<lparr>node_1 = uid_2 e, node_2 = uid_1 e,
              timestamp = Max (set (pair_timestamps (partition_intersections intersects w) (uid_1 e) (uid_2 e))),
              connection = ''down''\<rparr>]
       \<and> Min (set (pair_timestamps (partition_intersections intersects w) (uid_1 e) (uid_2 e)))
           \<le> Max (set (pair_timestamps (partition_intersections intersects w) (uid_1 e) (uid_2 e)))"
proof -
  let ?df = "partition_intersections intersects w"
  have norev: "\<forall>e' \<in> set ?df. \<not> (uid_1 e' = uid_2 e \<and> uid_2 e' = uid_1 e) \<or> uid_1 e = uid_2 e"
    using intersection_not_reversed [OF assms(2)] by blast
  have times: "pair_timestamps ?df (uid_1 e) (uid_2 e) = df_time ?df (uid_1 e, uid_2 e)"
    by (simp add: pair_timestamps_def df_time_eq pair_events_oriented [OF assms(2)])
  have "pair_colocations (df_coloc to_list ?df) (uid_1 e) (uid_2 e) = couple_coloc ?df (uid_1 e, uid_2 e)"
    using assms norev by (intro pair_colocations_df_coloc) simp_all
  then have 1: "pair_colocations (df_coloc to_list ?df) (uid_1 e) (uid_2 e) =
           [\<lparr>node_1 = uid_1 e, node_2 = uid_2 e,
              timestamp = Min (set (pair_timestamps ?df (uid_1 e) (uid_2 e))), connection = ''up''\<rparr>,
            \<lparr>node_1 = uid_1 e, node_2 = uid_2 e,
              timestamp = Max (set (pair_timestamps ?df (uid_1 e) (uid_2 e))), connection = ''down''\<rparr>,
            \<lparr>node_1 = uid_2 e, node_2 = uid_1 e,
              timestamp = Min (set (pair_timestamps ?df (uid_1 e) (uid_2 e))), connection = ''up''\<rparr>,
            \<lparr>node_1 = uid_2 e, node_2 = uid_1 e,
              timestamp = Max (set (pair_timestamps ?df (uid_1 e) (uid_2 e))), connection = ''down''\<rparr>]"
    by (simp add: couple_coloc_def times)
  have "e \<in> set (pair_events ?df (uid_1 e) (uid_2 e))" using assms(2) by (simp add: pair_events_def)
  then have "pair_timestamps ?df (uid_1 e) (uid_2 e) \<noteq> []" by (auto simp: pair_timestamps_def)
  then have 2: "Min (set (pair_timestamps ?df (uid_1 e) (uid_2 e)))
           \<le> Max (set (pair_timestamps ?df (uid_1 e) (uid_2 e)))"
    by (rule Min_le_Max_list)
  from 1 2 show ?thesis by (rule conjI)
qed

lemma couple_coloc_multiplicity:
  assumes e: "e \<in> set df" "uid_1 e = a" "uid_2 e = b"
    and sub: "set df \<subseteq> set df'"
    and new: "\<forall>x \<in> set df'. x \<notin> set df \<and> uid_1 x = a \<and> uid_2 x = b \<longrightarrow>
               Min (set (df_time df (a, b))) \<le> timestamp_uid_1 x \<and> timestamp_uid_1 x \<le> Max (set (df_time df (a, b)))
             \<and> Min (set (df_time df (a, b))) \<le> timestamp_uid_2 x \<and> timestamp_uid_2 x \<le> Max (set (df_time df (a, b)))"
  shows "couple_coloc df' (a, b) = couple_coloc df (a, b)"
proof -
  let ?T = "set (df_time df (a, b))" and ?T' = "set (df_time df' (a, b))"
  have ne: "?T \<noteq> {}" using e by (auto simp: df_time_eq)
  have subT: "?T \<subseteq> ?T'" using sub by (auto simp: df_time_eq)
  have bound: "\<forall>t \<in> ?T'. Min ?T \<le> t \<and> t \<le> Max ?T"
  proof
    fix t assume "t \<in> ?T'"
    then obtain x where x: "x \<in> set df'" "uid_1 x = a" "uid_2 x = b"
      "t = timestamp_uid_1 x \<or> t = timestamp_uid_2 x"
      by (auto simp: df_time_eq)
    show "Min ?T \<le> t \<and> t \<le> Max ?T"
    proof (cases "x \<in> set df")
      case True
      then have "t \<in> ?T" using x by (auto simp: df_time_eq)
      then show ?thesis by simp
    next
      case False
      then show ?thesis using new x by blast
    qed
  qed
  have "Min ?T \<in> ?T'" "Max ?T \<in> ?T'" using ne subT Min_in [of ?T] Max_in [of ?T] by auto
  then have "Min ?T' = Min ?T" "Max ?T' = Max ?T"
    using bound by (auto intro!: Min_eqI Max_eqI)
  then show ?thesis by (simp add: couple_coloc_def)
qed

text \<open>
  C8. The four rows emitted for a couple do not depend on the multiplicity of its
  overlap events: let \<open>df'\<close> hold every event of \<open>df\<close> (any number of times, in any
  order) and possibly further events; if those further events of the couple
  \<open>(a, b)\<close> have their timestamps within the couple's range \<open>[min, max]\<close> in \<open>df\<close>,
  the loop body yields the same four rows for \<open>df'\<close> as for \<open>df\<close>, and so the rows of
  the pair in the window's table are the same (when no event has the reverse
  orientation, as is the case for the events of a window).
\<close>

theorem multiplicity_insensitive:
  assumes e: "e \<in> set df" "uid_1 e = a" "uid_2 e = b"
    and sub: "set df \<subseteq> set df'"
    and new: "\<forall>x \<in> set df'. x \<notin> set df \<and> uid_1 x = a \<and> uid_2 x = b \<longrightarrow>
               Min (set (df_time df (a, b))) \<le> timestamp_uid_1 x \<and> timestamp_uid_1 x \<le> Max (set (df_time df (a, b)))
             \<and> Min (set (df_time df (a, b))) \<le> timestamp_uid_2 x \<and> timestamp_uid_2 x \<le> Max (set (df_time df (a, b)))"
  shows "couple_coloc df' (a, b) = couple_coloc df (a, b)
       \<and> (set_iteration to_list \<and> (a \<noteq> b \<longrightarrow> (\<forall>x \<in> set df'. \<not> (uid_1 x = b \<and> uid_2 x = a)))
            \<longrightarrow> pair_colocations (df_coloc to_list df') a b = pair_colocations (df_coloc to_list df) a b)"
proof (intro conjI impI)
  show eq: "couple_coloc df' (a, b) = couple_coloc df (a, b)"
    using e sub new by (rule couple_coloc_multiplicity)
  assume h: "set_iteration to_list \<and> (a \<noteq> b \<longrightarrow> (\<forall>x \<in> set df'. \<not> (uid_1 x = b \<and> uid_2 x = a)))"
  then have it: "set_iteration to_list" by simp
  have norev': "\<forall>e' \<in> set df'. \<not> (uid_1 e' = b \<and> uid_2 e' = a) \<or> a = b" using h by blast
  then have norev: "\<forall>e' \<in> set df. \<not> (uid_1 e' = b \<and> uid_2 e' = a) \<or> a = b" using sub by blast
  have e': "e \<in> set df'" using e(1) sub by blast
  have "pair_colocations (df_coloc to_list df') a b = couple_coloc df' (a, b)"
    using it e' e(2,3) norev' by (rule pair_colocations_df_coloc)
  moreover have "pair_colocations (df_coloc to_list df) a b = couple_coloc df (a, b)"
    using it e(1,2,3) norev by (rule pair_colocations_df_coloc)
  ultimately show "pair_colocations (df_coloc to_list df') a b = pair_colocations (df_coloc to_list df) a b"
    using eq by simp
qed

lemma ex_unique: "unique (map user_id [row 0 0 0, row 2 1 0, row 1 2 0, row 0 5 0]) = [0, 2, 1]"
  by simp

lemma ex_partition_intersections:
  "partition_intersections (=) [row 0 0 0, row 2 1 0, row 1 2 0, row 0 5 0] =
     [\<lparr>uid_1 = 0, timestamp_uid_1 = 0, uid_2 = 2, timestamp_uid_2 = 1\<rparr>,
      \<lparr>uid_1 = 0, timestamp_uid_1 = 0, uid_2 = 1, timestamp_uid_2 = 2\<rparr>,
      \<lparr>uid_1 = 0, timestamp_uid_1 = 5, uid_2 = 2, timestamp_uid_2 = 1\<rparr>,
      \<lparr>uid_1 = 0, timestamp_uid_1 = 5, uid_2 = 1, timestamp_uid_2 = 2\<rparr>,
      \<lparr>uid_1 = 2, timestamp_uid_1 = 1, uid_2 = 1, timestamp_uid_2 = 2\<rparr>]"
  by (simp add: partition_intersections_def df_dfs_def intersection_row_def)

theorem overlap_orientation_witness:
  "\<lparr>uid_1 = 2, timestamp_uid_1 = 1, uid_2 = 1, timestamp_uid_2 = 2\<rparr>
     \<in> set (partition_intersections (=) [row 0 0 0, row 2 1 0, row 1 2 0, row 0 5 0])
   \<and> unique (map user_id [row 0 0 0, row 2 1 0, row 1 2 0, row 0 5 0]) = [0, 2, 1]
   \<and> (\<exists>k l. k < l \<and> l < length [0, 2, 1 :: int] \<and> [0, 2, 1] ! k = (2::int) \<and> [0, 2, 1] ! l = (1::int))
   \<and> filter (\<lambda>e'. uid_1 e' = 2 \<and> uid_2 e' = 1)
        (partition_intersections (=) [row 0 0 0, row 2 1 0, row 1 2 0, row 0 5 0])
     = filter (\<lambda>e'. {uid_1 e', uid_2 e'} = {2, 1})
        (partition_intersections (=) [row 0 0 0, row 2 1 0, row 1 2 0, row 0 5 0])"
proof -
  have h: "\<lparr>uid_1 = 2, timestamp_uid_1 = 1, uid_2 = 1, timestamp_uid_2 = 2\<rparr>
     \<in> set (partition_intersections (=) [row 0 0 0, row 2 1 0, row 1 2 0, row 0 5 0])"
    by (simp add: ex_partition_intersections)
  show ?thesis
    using overlap_orientation [OF h] h unfolding ex_unique by simp
qed

theorem four_colocations_per_pair_witness:
  "set_iteration (remdups :: (int \<times> int) list \<Rightarrow> (int \<times> int) list)
   \<and> \<lparr>uid_1 = 0, timestamp_uid_1 = 0, uid_2 = 2, timestamp_uid_2 = 1\<rparr>
       \<in> set (partition_intersections (=) [row 0 0 0, row 2 1 0, row 1 2 0, row 0 5 0])
   \<and> pair_colocations
       (df_coloc remdups (partition_intersections (=) [row 0 0 0, row 2 1 0, row 1 2 0, row 0 5 0])) 0 2 =
       [\<lparr>node_1 = 0, node_2 = 2, timestamp = 0, connection = ''up''\<rparr>,
        \<lparr>node_1 = 0, node_2 = 2, timestamp = 5, connection = ''down''\<rparr>,
        \<lparr>node_1 = 2, node_2 = 0, timestamp = 0, connection = ''up''\<rparr>,
        \<lparr>node_1 = 2, node_2 = 0, timestamp = 5, connection = ''down''\<rparr>]"
proof -
  have h1: "set_iteration (remdups :: (int \<times> int) list \<Rightarrow> (int \<times> int) list)"
    by (rule set_iteration_remdups)
  have h2: "\<lparr>uid_1 = 0, timestamp_uid_1 = 0, uid_2 = 2, timestamp_uid_2 = 1\<rparr>
       \<in> set (partition_intersections (=) [row 0 0 0, row 2 1 0, row 1 2 0, row 0 5 0])"
    by (simp add: ex_partition_intersections)
  have ts: "set (pair_timestamps (partition_intersections (=) [row 0 0 0, row 2 1 0, row 1 2 0, row 0 5 0]) 0 2)
            = {0, 5, 1}"
    by (auto simp: ex_partition_intersections pair_timestamps_def pair_events_def doubleton_eq_iff)
  show ?thesis
    using four_colocations_per_pair [OF h1 h2] h1 h2 by (simp add: ts)
qed

theorem multiplicity_insensitive_witness:
  "couple_coloc
     [\<lparr>uid_1 = 0, timestamp_uid_1 = 0, uid_2 = 2, timestamp_uid_2 = 1\<rparr>,
      \<lparr>uid_1 = 0, timestamp_uid_1 = 3, uid_2 = 2, timestamp_uid_2 = 4\<rparr>,
      \<lparr>uid_1 = 0, timestamp_uid_1 = 5, uid_2 = 2, timestamp_uid_2 = 1\<rparr>,
      \<lparr>uid_1 = 0, timestamp_uid_1 = 0, uid_2 = 2, timestamp_uid_2 = 1\<rparr>,
      \<lparr>uid_1 = 2, timestamp_uid_1 = 1, uid_2 = 1, timestamp_uid_2 = 2\<rparr>,
      \<lparr>uid_1 = 1, timestamp_uid_1 = 9, uid_2 = 3, timestamp_uid_2 = 9\<rparr>] (0, 2)
   = couple_coloc
     [\<lparr>uid_1 = 0, timestamp_uid_1 = 0, uid_2 = 2, timestamp_uid_2 = 1\<rparr>,
      \<lparr>uid_1 = 0, timestamp_uid_1 = 5, uid_2 = 2, timestamp_uid_2 = 1\<rparr>,
      \<lparr>uid_1 = 2, timestamp_uid_1 = 1, uid_2 = 1, timestamp_uid_2 = 2\<rparr>] (0, 2)
   \<and> pair_colocations (df_coloc remdups
     [\<lparr>uid_1 = 0, timestamp_uid_1 = 0, uid_2 = 2, timestamp_uid_2 = 1\<rparr>,
      \<lparr>uid_1 = 0, timestamp_uid_1 = 3, uid_2 = 2, timestamp_uid_2 = 4\<rparr>,
      \<lparr>uid_1 = 0, timestamp_uid_1 = 5, uid_2 = 2, timestamp_uid_2 = 1\<rparr>,
      \<lparr>uid_1 = 0, timestamp_uid_1 = 0, uid_2 = 2, timestamp_uid_2 = 1\<rparr>,
      \<lparr>uid_1 = 2, timestamp_uid_1 = 1, uid_2 = 1, timestamp_uid_2 = 2\<rparr>,
      \<lparr>uid_1 = 1, timestamp_uid_1 = 9, uid_2 = 3, timestamp_uid_2 = 9\<rparr>]) 0 2
   = pair_colocations (df_coloc remdups
     [\<lparr>uid_1 = 0, timestamp_uid_1 = 0, uid_2 = 2, timestamp_uid_2 = 1\<rparr>,
      \<lparr>uid_1 = 0, timestamp_uid_1 = 5, uid_2 = 2, timestamp_uid_2 = 1\<rparr>,
      \<lparr>uid_1 = 2, timestamp_uid_1 = 1, uid_2 = 1, timestamp_uid_2 = 2\<rparr>]) 0 2"
proof -
  let ?e = "\<lparr>uid_1 = 0, timestamp_uid_1 = 0, uid_2 = 2, timestamp_uid_2 = 1\<rparr>"
  let ?df = "[?e, \<lparr>uid_1 = 0, timestamp_uid_1 = 5, uid_2 = 2, timestamp_uid_2 = 1\<rparr>,
      \<lparr>uid_1 = 2, timestamp_uid_1 = 1, uid_2 = 1, timestamp_uid_2 = 2\<rparr>]"
  let ?df' = "[?e, \<lparr>uid_1 = 0, timestamp_uid_1 = 3, uid_2 = 2, timestamp_uid_2 = 4\<rparr>,
      \<lparr>uid_1 = 0, timestamp_uid_1 = 5, uid_2 = 2, timestamp_uid_2 = 1\<rparr>, ?e,
      \<lparr>uid_1 = 2, timestamp_uid_1 = 1, uid_2 = 1, timestamp_uid_2 = 2\<rparr>,
      \<lparr>uid_1 = 1, timestamp_uid_1 = 9, uid_2 = 3, timestamp_uid_2 = 9\<rparr>]"
  have h1: "?e \<in> set ?df" "uid_1 ?e = 0" "uid_2 ?e = 2" by simp_all
  have h2: "set ?df \<subseteq> set ?df'" by simp
  have h3: "\<forall>x \<in> set ?df'. x \<notin> set ?df \<and> uid_1 x = 0 \<and> uid_2 x = 2 \<longrightarrow>
               Min (set (df_time ?df (0, 2))) \<le> timestamp_uid_1 x \<and> timestamp_uid_1 x \<le> Max (set (df_time ?df (0, 2)))
             \<and> Min (set (df_time ?df (0, 2))) \<le> timestamp_uid_2 x \<and> timestamp_uid_2 x \<le> Max (set (df_time ?df (0, 2)))"
    by (simp add: df_time_eq)
  have h4: "set_iteration (remdups :: (int \<times> int) list \<Rightarrow> (int \<times> int) list)
      \<and> ((0::int) \<noteq> 2 \<longrightarrow> (\<forall>x \<in> set ?df'. \<not> (uid_1 x = 2 \<and> uid_2 x = 0)))"
    by (simp add: set_iteration_remdups)
  show ?thesis using multiplicity_insensitive [OF h1 h2 h3, of remdups] h4 by blast
qed

section \<open>Records on a window boundary\<close>

lemma length_split_loop [simp]: "length (split_loop n m tw data) = n"
  by (simp add: split_loop_bounds)

lemma dataframe_split_parts:
  assumes "dataframe_split data tw = Inr parts"
  shows "data \<noteq> [] \<and> parts = split_loop (length parts) (min_stp data) tw data"
proof -
  have ne: "data \<noteq> []" using assms by (auto simp: dataframe_split_def)
  then obtain n where "parts = split_loop (nat n) (min_stp data) tw data"
    using assms by (auto simp: dataframe_split_def split: sum.splits)
  moreover from this have "length parts = nat n" by simp
  ultimately show ?thesis using ne by simp
qed

text \<open>
  C6, as stated, fails where a window bound overflows. Rows at \<open>2^63 - 200\<close>,
  \<open>2^63 - 50\<close> and \<open>2^63 - 1\<close> with \<open>tw = 150\<close>: there are two windows, the second row is
  on their common boundary \<open>min + 150\<close>, but the upper bound of the second window wraps
  around to \<open>-2^63 + 100\<close>, and that partition is empty.
\<close>

theorem boundary_overflow_counterexample:
  "dataframe_split
     [row 0 9223372036854775608 0, row 1 9223372036854775758 0, row 2 9223372036854775807 0] 150 =
     Inr [[row 0 9223372036854775608 0, row 1 9223372036854775758 0], []]
   \<and> sampletimestamp (row 1 9223372036854775758 0) =
       min_stp [row 0 9223372036854775608 0, row 1 9223372036854775758 0, row 2 9223372036854775807 0] + 150"
proof -
  have m: "min_stp [row 0 9223372036854775608 0, row 1 9223372036854775758 0, row 2 9223372036854775807 0]
             = 9223372036854775608"
    "max_stp [row 0 9223372036854775608 0, row 1 9223372036854775758 0, row 2 9223372036854775807 0]
             = 9223372036854775807"
    by (simp_all add: min_stp_def max_stp_def)
  have "int_truediv 199 150 = Inr (199 div 150)" by (rule int_truediv_exact) simp_all
  then have "df_s [row 0 9223372036854775608 0, row 1 9223372036854775758 0, row 2 9223372036854775807 0] 150
               = Inr 2"
    by (simp add: df_s_def m wrap64_def)
  then have "dataframe_split
     [row 0 9223372036854775608 0, row 1 9223372036854775758 0, row 2 9223372036854775807 0] 150 =
     Inr [[row 0 9223372036854775608 0, row 1 9223372036854775758 0], []]"
    by (simp add: dataframe_split_def m in_window_def wrap64_def numeral_2_eq_2)
  then show ?thesis by (simp add: m)
qed

text \<open>
  C6, amended. Both bounds of a window are inclusive where the bounds do not
  overflow. Let the timestamps be int64 values, \<open>tw > 0\<close>, and let a record \<open>r\<close> have
  the timestamp \<open>min + (i + 1) * tw\<close>, the upper bound of window \<open>i\<close> and the lower
  bound of window \<open>i + 1\<close>, with \<open>timestamp + tw < 2^63\<close>. Then partition \<open>i\<close> holds
  exactly the rows with \<open>min + i * tw \<le> timestamp \<le> min + i * tw + tw\<close>, partition
  \<open>i + 1\<close> exactly those of the next window, and \<open>r\<close> is in both. Hence a contact between
  two such records of distinct users, whose areas intersect, gives an overlap event in
  both windows.
\<close>

theorem boundary_record_in_both_windows:
  fixes data :: "('f, 'g) trace list"
  assumes split: "dataframe_split data tw = Inr parts" and tw: "0 < tw"
    and i: "Suc i < length parts"
    and r: "r \<in> set data" "sampletimestamp r = min_stp data + (int i + 1) * tw"
    and range: "\<forall>x \<in> set data. int64 (sampletimestamp x)" "sampletimestamp r + tw < 2 ^ 63"
  shows "parts ! i =
           filter (\<lambda>x. min_stp data + int i * tw \<le> sampletimestamp x
                      \<and> sampletimestamp x \<le> min_stp data + int i * tw + tw) data
       \<and> parts ! Suc i =
           filter (\<lambda>x. min_stp data + (int i + 1) * tw \<le> sampletimestamp x
                      \<and> sampletimestamp x \<le> min_stp data + (int i + 1) * tw + tw) data
       \<and> r \<in> set (parts ! i) \<and> r \<in> set (parts ! Suc i)
       \<and> (\<forall>r' \<in> set data.
            sampletimestamp r' = sampletimestamp r \<and> user_id r' \<noteq> user_id r
            \<and> intersects (short_range_communication_area r) (short_range_communication_area r')
            \<and> intersects (short_range_communication_area r') (short_range_communication_area r)
            \<longrightarrow> (\<forall>w \<in> {parts ! i, parts ! Suc i}.
                   intersection_row r r' \<in> set (partition_intersections intersects w)
                 \<or> intersection_row r' r \<in> set (partition_intersections intersects w)))"
proof -
  have ne: "data \<noteq> []" and parts: "parts = split_loop (length parts) (min_stp data) tw data"
    using dataframe_split_parts [OF split] by simp_all
  have low: "- (2 ^ 63) \<le> min_stp data"
    using min_stp_int64 [OF ne range(1)] by (simp add: int64_def)
  have tw0: "0 \<le> tw" using tw by simp
  have top: "min_stp data + (int i + 1) * tw < 2 ^ 63" using r(2) range(2) tw by simp
  have top': "min_stp data + (int (Suc i) + 1) * tw < 2 ^ 63"
    using r(2) range(2) by (simp add: algebra_simps)
  have "i < length parts" using i by simp
  then have "split_loop (length parts) (min_stp data) tw data ! i =
           filter (\<lambda>x. min_stp data + int i * tw \<le> sampletimestamp x
                      \<and> sampletimestamp x \<le> min_stp data + int i * tw + tw) data"
    using tw0 low top by (intro split_loop_nth)
  then have pi: "parts ! i =
           filter (\<lambda>x. min_stp data + int i * tw \<le> sampletimestamp x
                      \<and> sampletimestamp x \<le> min_stp data + int i * tw + tw) data"
    using parts by simp
  have "split_loop (length parts) (min_stp data) tw data ! Suc i =
           filter (\<lambda>x. min_stp data + int (Suc i) * tw \<le> sampletimestamp x
                      \<and> sampletimestamp x \<le> min_stp data + int (Suc i) * tw + tw) data"
    using tw0 low i top' by (intro split_loop_nth)
  then have "parts ! Suc i =
           filter (\<lambda>x. min_stp data + int (Suc i) * tw \<le> sampletimestamp x
                      \<and> sampletimestamp x \<le> min_stp data + int (Suc i) * tw + tw) data"
    using parts by simp
  moreover have "int (Suc i) = int i + 1" by simp
  ultimately have pi': "parts ! Suc i =
           filter (\<lambda>x. min_stp data + (int i + 1) * tw \<le> sampletimestamp x
                      \<and> sampletimestamp x \<le> min_stp data + (int i + 1) * tw + tw) data"
    by (simp only:)
  have both: "\<And>x. x \<in> set data \<Longrightarrow> sampletimestamp x = sampletimestamp r
                \<Longrightarrow> x \<in> set (parts ! i) \<and> x \<in> set (parts ! Suc i)"
    using tw r(2) unfolding pi pi' by (simp add: algebra_simps)
  have 1: "r \<in> set (parts ! i) \<and> r \<in> set (parts ! Suc i)" using both r(1) by simp
  have 2: "\<forall>r' \<in> set data.
            sampletimestamp r' = sampletimestamp r \<and> user_id r' \<noteq> user_id r
            \<and> intersects (short_range_communication_area r) (short_range_communication_area r')
            \<and> intersects (short_range_communication_area r') (short_range_communication_area r)
            \<longrightarrow> (\<forall>w \<in> {parts ! i, parts ! Suc i}.
                   intersection_row r r' \<in> set (partition_intersections intersects w)
                 \<or> intersection_row r' r \<in> set (partition_intersections intersects w))"
  proof (intro ballI impI)
    fix r' w
    assume r': "r' \<in> set data" and h: "sampletimestamp r' = sampletimestamp r \<and> user_id r' \<noteq> user_id r
            \<and> intersects (short_range_communication_area r) (short_range_communication_area r')
            \<and> intersects (short_range_communication_area r') (short_range_communication_area r)"
      and w: "w \<in> {parts ! i, parts ! Suc i}"
    have "r \<in> set w" "r' \<in> set w" using w 1 both [OF r'] h by auto
    then show "intersection_row r r' \<in> set (partition_intersections intersects w)
                 \<or> intersection_row r' r \<in> set (partition_intersections intersects w)"
      using h by (intro intersection_complete) auto
  qed
  from pi pi' 1 2 show ?thesis by blast
qed

theorem boundary_record_in_both_windows_witness:
  "dataframe_split [row 0 0 0, row 1 150 1, row 2 150 1] 150 =
       Inr [[row 0 0 0, row 1 150 1, row 2 150 1], [row 1 150 1, row 2 150 1]]
   \<and> sampletimestamp (row 1 150 1) + 150 < 2 ^ 63
   \<and> row 1 150 1 \<in> set [row 0 0 0, row 1 150 1, row 2 150 1]
   \<and> row 1 150 1 \<in> set [row 1 150 1, row 2 150 1]
   \<and> (intersection_row (row 1 150 1) (row 2 150 1)
          \<in> set (partition_intersections (=) [row 0 0 0, row 1 150 1, row 2 150 1])
        \<or> intersection_row (row 2 150 1) (row 1 150 1)
          \<in> set (partition_intersections (=) [row 0 0 0, row 1 150 1, row 2 150 1]))
   \<and> (intersection_row (row 1 150 1) (row 2 150 1)
          \<in> set (partition_intersections (=) [row 1 150 1, row 2 150 1])
        \<or> intersection_row (row 2 150 1) (row 1 150 1)
          \<in> set (partition_intersections (=) [row 1 150 1, row 2 150 1]))"
proof -
  let ?data = "[row 0 0 0, row 1 150 1, row 2 150 1]"
  have h1: "dataframe_split ?data 150 = Inr [[row 0 0 0, row 1 150 1, row 2 150 1], [row 1 150 1, row 2 150 1]]"
    by (rule ex_dataframe_split)
  have h2: "(0::int) < 150" by simp
  have h3: "Suc 0 < length [[row 0 0 0, row 1 150 1, row 2 150 1], [row 1 150 1, row 2 150 1]]" by simp
  have h4: "row 1 150 1 \<in> set ?data" by simp
  have h5: "sampletimestamp (row 1 150 1) = min_stp ?data + (int 0 + 1) * 150" by (simp add: ex_min)
  have h6: "\<forall>x \<in> set ?data. int64 (sampletimestamp x)" by (simp add: int64_def)
  have h7: "sampletimestamp (row 1 150 1) + 150 < 2 ^ 63" by simp
  show ?thesis
    using boundary_record_in_both_windows [OF h1 h2 h3 h4 h5 h6 h7, of "(=)"] h1 h7 by simp
qed

section \<open>Properties of users_mapping\<close>

lemma map_uid_nth:
  "distinct users \<Longrightarrow> k < length users \<Longrightarrow> map_of (map_uid users) (users ! k) = Some (int k)"
  by (simp add: map_uid_def map_of_zip_nth)

lemma user_id_replace:
  "user_id (replace_user_id m r) = (case map_of m (user_id r) of None \<Rightarrow> user_id r | Some v \<Rightarrow> v)"
  by (simp add: replace_user_id_def split: option.split)

lemma unique_map_inj:
  "inj_on f (set xs) \<Longrightarrow> unique (map f xs) = map f (unique xs)"
proof (induction xs rule: unique.induct)
  case 1
  show ?case by simp
next
  case (2 x xs)
  have inj: "inj_on f (set (filter (\<lambda>y. y \<noteq> x) xs))"
    using "2.prems" by (auto intro: inj_on_subset)
  have "filter (\<lambda>y. f y \<noteq> f x) xs = filter (\<lambda>y. y \<noteq> x) xs"
    using "2.prems" by (intro filter_cong refl) (auto simp: inj_on_def)
  then have "filter (\<lambda>y. y \<noteq> f x) (map f xs) = map f (filter (\<lambda>y. y \<noteq> x) xs)"
    by (simp add: filter_map comp_def)
  then show ?case using "2.IH" [OF inj] by simp
qed

lemma length_unique_card: "length (unique xs) = card (set xs)"
  using distinct_card [of "unique xs"] by simp

text \<open>
  C10. \<open>users_mapping\<close> relabels densely and injectively: with \<open>n\<close> distinct user ids
  in the data, the new ids are exactly \<open>0, ..., n - 1\<close>; they appear for the first time
  in the order \<open>0, 1, ..., n - 1\<close>, that is, each user gets the position of its first
  appearance among the distinct ids; nothing but \<open>user_id\<close> changes in a row; and two
  rows have the same new id exactly when they had the same old id.
\<close>

theorem users_mapping_dense:
  fixes data :: "('f, 'g) trace list"
  shows "length (users_mapping data) = length data
       \<and> set (map user_id (users_mapping data)) = int ` {0..<card (set (map user_id data))}
       \<and> unique (map user_id (users_mapping data)) = map int [0..<card (set (map user_id data))]
       \<and> (\<forall>i < length data.
            \<exists>k < card (set (map user_id data)).
               unique (map user_id data) ! k = user_id (data ! i)
             \<and> users_mapping data ! i = (data ! i)\<lparr>user_id := int k\<rparr>)
       \<and> (\<forall>i < length data. \<forall>j < length data.
            user_id (users_mapping data ! i) = user_id (users_mapping data ! j)
            \<longleftrightarrow> user_id (data ! i) = user_id (data ! j))"
proof -
  let ?users = "unique (map user_id data)"
  let ?n = "card (set (map user_id data))"
  define g where "g u = (case map_of (map_uid ?users) u of None \<Rightarrow> u | Some v \<Rightarrow> v)" for u
  have n: "length ?users = ?n" by (rule length_unique_card)
  have g_nth: "g (?users ! k) = int k" if "k < ?n" for k
    using that n by (simp add: g_def map_uid_nth)
  have ids: "map user_id (users_mapping data) = map g (map user_id data)"
    by (simp add: users_mapping_def g_def user_id_replace)
  have inj: "inj_on g (set ?users)"
  proof (rule inj_onI)
    fix u v assume "u \<in> set ?users" "v \<in> set ?users" "g u = g v"
    then obtain k l where "k < ?n" "?users ! k = u" "l < ?n" "?users ! l = v"
      unfolding in_set_conv_nth n by blast
    with \<open>g u = g v\<close> show "u = v" using g_nth by auto
  qed
  have map_g: "map g ?users = map int [0..<?n]"
    by (rule nth_equalityI) (simp_all add: n g_nth)
  have 1: "length (users_mapping data) = length data" by (simp add: users_mapping_def)
  have 3: "unique (map user_id (users_mapping data)) = map int [0..<?n]"
    using inj unique_map_inj [of g "map user_id data"] by (simp add: ids map_g)
  have "set (map user_id (users_mapping data)) = set (unique (map user_id (users_mapping data)))"
    by simp
  then have 2: "set (map user_id (users_mapping data)) = int ` {0..<?n}"
    unfolding 3 by simp
  have 4: "\<forall>i < length data. \<exists>k < ?n. ?users ! k = user_id (data ! i)
             \<and> users_mapping data ! i = (data ! i)\<lparr>user_id := int k\<rparr>"
  proof (intro allI impI)
    fix i assume i: "i < length data"
    then have "user_id (data ! i) \<in> set ?users" by simp
    then obtain k where k: "k < ?n" "?users ! k = user_id (data ! i)"
      unfolding in_set_conv_nth n by blast
    then have "map_of (map_uid ?users) (user_id (data ! i)) = Some (int k)"
      using map_uid_nth [of ?users k] n by simp
    then have "users_mapping data ! i = (data ! i)\<lparr>user_id := int k\<rparr>"
      using i by (simp add: users_mapping_def replace_user_id_def)
    with k show "\<exists>k < ?n. ?users ! k = user_id (data ! i)
             \<and> users_mapping data ! i = (data ! i)\<lparr>user_id := int k\<rparr>" by blast
  qed
  have 5: "\<forall>i < length data. \<forall>j < length data.
            user_id (users_mapping data ! i) = user_id (users_mapping data ! j)
            \<longleftrightarrow> user_id (data ! i) = user_id (data ! j)"
  proof (intro allI impI)
    fix i j assume i: "i < length data" and j: "j < length data"
    have "user_id (users_mapping data ! i) = g (user_id (data ! i))"
      "user_id (users_mapping data ! j) = g (user_id (data ! j))"
      using i j by (simp_all add: users_mapping_def g_def user_id_replace)
    moreover have "user_id (data ! i) \<in> set ?users" "user_id (data ! j) \<in> set ?users"
      using i j by simp_all
    ultimately show "user_id (users_mapping data ! i) = user_id (users_mapping data ! j)
            \<longleftrightarrow> user_id (data ! i) = user_id (data ! j)"
      using inj by (auto dest: inj_onD)
  qed
  from 1 2 3 4 5 show ?thesis by blast
qed

theorem users_mapping_dense_witness:
  "users_mapping [row 7 0 0, row 3 0 0, row 7 5 0, row 0 0 0] = [row 0 0 0, row 1 0 0, row 0 5 0, row 2 0 0]
   \<and> card (set (map user_id [row 7 0 0, row 3 0 0, row 7 5 0, row 0 0 0])) = 3
   \<and> set (map user_id (users_mapping [row 7 0 0, row 3 0 0, row 7 5 0, row 0 0 0])) = int ` {0..<3}
   \<and> unique (map user_id (users_mapping [row 7 0 0, row 3 0 0, row 7 5 0, row 0 0 0])) = map int [0..<3]"
proof -
  have c: "card (set (map user_id [row 7 0 0, row 3 0 0, row 7 5 0, row 0 0 0])) = 3"
    by (simp add: card_insert_if)
  have u: "users_mapping [row 7 0 0, row 3 0 0, row 7 5 0, row 0 0 0] = [row 0 0 0, row 1 0 0, row 0 5 0, row 2 0 0]"
    by (simp add: users_mapping_def map_uid_def replace_user_id_def row_def)
  have d: "set (map user_id (users_mapping [row 7 0 0, row 3 0 0, row 7 5 0, row 0 0 0])) = int ` {0..<3}
   \<and> unique (map user_id (users_mapping [row 7 0 0, row 3 0 0, row 7 5 0, row 0 0 0])) = map int [0..<3]"
    using users_mapping_dense [of "[row 7 0 0, row 3 0 0, row 7 5 0, row 0 0 0]"] unfolding c by blast
  from u c d show ?thesis by blast
qed

section \<open>Order of the rows of the final table\<close>

lemma set_iteration_ascending: "set_iteration ascending_iteration"
  by (simp add: set_iteration_def ascending_iteration_def)

lemma ex3_min: "min_stp [row 0 0 0, row 2 1 0, row 1 2 0] = 0"
  by (simp add: min_stp_def)

lemma ex3_max: "max_stp [row 0 0 0, row 2 1 0, row 1 2 0] = 2"
  by (simp add: max_stp_def)

lemma ex3_dataframe_split:
  "dataframe_split [row 0 0 0, row 2 1 0, row 1 2 0] 150 = Inr [[row 0 0 0, row 2 1 0, row 1 2 0]]"
proof -
  have "int_truediv 2 150 = Inr (2 div 150)" by (rule int_truediv_exact) simp_all
  then have "df_s [row 0 0 0, row 2 1 0, row 1 2 0] 150 = Inr 1"
    by (simp add: df_s_def ex3_min ex3_max wrap64_def)
  then show ?thesis
    by (simp add: dataframe_split_def ex3_min in_window_def wrap64_def)
qed

lemma ex3_partition_intersections:
  "partition_intersections (=) [row 0 0 0, row 2 1 0, row 1 2 0] =
     [\<lparr>uid_1 = 0, timestamp_uid_1 = 0, uid_2 = 2, timestamp_uid_2 = 1\<rparr>,
      \<lparr>uid_1 = 0, timestamp_uid_1 = 0, uid_2 = 1, timestamp_uid_2 = 2\<rparr>,
      \<lparr>uid_1 = 2, timestamp_uid_1 = 1, uid_2 = 1, timestamp_uid_2 = 2\<rparr>]"
  by (simp add: partition_intersections_def df_dfs_def intersection_row_def)

lemma ex3_get_intersections:
  "get_intersections (=) [row 0 0 0, row 2 1 0, row 1 2 0] =
     Inr [[\<lparr>uid_1 = 0, timestamp_uid_1 = 0, uid_2 = 2, timestamp_uid_2 = 1\<rparr>,
           \<lparr>uid_1 = 0, timestamp_uid_1 = 0, uid_2 = 1, timestamp_uid_2 = 2\<rparr>,
           \<lparr>uid_1 = 2, timestamp_uid_1 = 1, uid_2 = 1, timestamp_uid_2 = 2\<rparr>]]"
  by (simp add: get_intersections_def ex3_dataframe_split ex3_partition_intersections)

lemma ex3_ascending:
  "get_colocations ascending_iteration (=) [row 0 0 0, row 2 1 0, row 1 2 0] =
     Inr [\<lparr>node_1 = 0, node_2 = 1, timestamp = 0, connection = ''up''\<rparr>,
          \<lparr>node_1 = 0, node_2 = 1, timestamp = 2, connection = ''down''\<rparr>,
          \<lparr>node_1 = 1, node_2 = 0, timestamp = 0, connection = ''up''\<rparr>,
          \<lparr>node_1 = 1, node_2 = 0, timestamp = 2, connection = ''down''\<rparr>,
          \<lparr>node_1 = 0, node_2 = 2, timestamp = 0, connection = ''up''\<rparr>,
          \<lparr>node_1 = 0, node_2 = 2, timestamp = 1, connection = ''down''\<rparr>,
          \<lparr>node_1 = 2, node_2 = 0, timestamp = 0, connection = ''up''\<rparr>,
          \<lparr>node_1 = 2, node_2 = 0, timestamp = 1, connection = ''down''\<rparr>,
          \<lparr>node_1 = 2, node_2 = 1, timestamp = 1, connection = ''up''\<rparr>,
          \<lparr>node_1 = 2, node_2 = 1, timestamp = 2, connection = ''down''\<rparr>,
          \<lparr>node_1 = 1, node_2 = 2, timestamp = 1, connection = ''up''\<rparr>,
          \<lparr>node_1 = 1, node_2 = 2, timestamp = 2, connection = ''down''\<rparr>]"
  by (simp add: get_colocations_def ex3_get_intersections df_coloc_def users_couples_def
      ascending_iteration_def couple_coloc_def df_time_eq)

lemma ex3_discovery:
  "discovery_order_table (=) [row 0 0 0, row 2 1 0, row 1 2 0] =
     Inr [\<lparr>node_1 = 0, node_2 = 2, timestamp = 0, connection = ''up''\<rparr>,
          \<lparr>node_1 = 0, node_2 = 2, timestamp = 1, connection = ''down''\<rparr>,
          \<lparr>node_1 = 2, node_2 = 0, timestamp = 0, connection = ''up''\<rparr>,
          \<lparr>node_1 = 2, node_2 = 0, timestamp = 1, connection = ''down''\<rparr>,
          \<lparr>node_1 = 0, node_2 = 1, timestamp = 0, connection = ''up''\<rparr>,
          \<lparr>node_1 = 0, node_2 = 1, timestamp = 2, connection = ''down''\<rparr>,
          \<lparr>node_1 = 1, node_2 = 0, timestamp = 0, connection = ''up''\<rparr>,
          \<lparr>node_1 = 1, node_2 = 0, timestamp = 2, connection = ''down''\<rparr>,
          \<lparr>node_1 = 2, node_2 = 1, timestamp = 1, connection = ''up''\<rparr>,
          \<lparr>node_1 = 2, node_2 = 1, timestamp = 2, connection = ''down''\<rparr>,
          \<lparr>node_1 = 1, node_2 = 2, timestamp = 1, connection = ''up''\<rparr>,
          \<lparr>node_1 = 1, node_2 = 2, timestamp = 2, connection = ''down''\<rparr>]"
  by (simp add: discovery_order_table_def get_colocations_def ex3_get_intersections df_coloc_def
      users_couples_def couple_coloc_def df_time_eq)

text \<open>
  C5, as stated, fails. Three users found in the order 0, 2, 1 in one window, all
  areas intersecting: the pairs are discovered in the order \<open>(0, 2), (0, 1), (2, 1)\<close>,
  but the couples come out of \<open>list(set(...))\<close>, which need not keep that order; with
  the set iterated as \<open>(0, 1), (0, 2), (2, 1)\<close> the table differs from the one in
  discovery order.
\<close>

theorem discovery_order_counterexample:
  "get_colocations ascending_iteration (=) [row 0 0 0, row 2 1 0, row 1 2 0]
     \<noteq> discovery_order_table (=) [row 0 0 0, row 2 1 0, row 1 2 0]"
  unfolding ex3_ascending ex3_discovery by simp

text \<open>
  C5, amended. On a record set that is not empty, the rows of the final table are those
  of the partitions in the order \<open>dataframe_split\<close> returns them, which is
  chronological (window \<open>i\<close> starts at \<open>min + i * 150\<close>) when the timestamps are int64
  values with \<open>max - min < 2^53\<close> and \<open>max + 150 < 2^63\<close>; within a window, the four-row
  groups of the couples follow the order in which \<open>list(set(...))\<close> enumerates the
  window's distinct \<open>(uid_1, uid_2)\<close> couples, each couple once; the rows are numbered
  by their position.
\<close>

theorem get_colocations_order:
  fixes data :: "('f, 'g) trace list"
  assumes "set_iteration to_list" and "data \<noteq> []"
  shows "\<exists>parts. dataframe_split data 150 = Inr parts
       \<and> get_colocations to_list intersects data =
           Inr (concat (map
             (\<lambda>w. concat (map (couple_coloc (partition_intersections intersects w))
                      (users_couples to_list (partition_intersections intersects w))))
             parts))
       \<and> (\<forall>w \<in> set parts.
             distinct (users_couples to_list (partition_intersections intersects w))
           \<and> set (users_couples to_list (partition_intersections intersects w))
               = (\<lambda>e. (uid_1 e, uid_2 e)) ` set (partition_intersections intersects w))
       \<and> ((\<forall>r \<in> set data. int64 (sampletimestamp r))
            \<and> max_stp data - min_stp data < 2 ^ 53 \<and> max_stp data + 150 < 2 ^ 63
          \<longrightarrow> parts =
                map (\<lambda>i. filter (\<lambda>r. min_stp data + int i * 150 \<le> sampletimestamp r
                                   \<and> sampletimestamp r \<le> min_stp data + int i * 150 + 150) data)
                  [0..<nat ((max_stp data - min_stp data) div 150 + 1)])"
proof -
  obtain parts where parts: "dataframe_split data 150 = Inr parts"
    using dataframe_split_150_Inr [OF assms(2)] by blast
  have 1: "get_colocations to_list intersects data =
           Inr (concat (map
             (\<lambda>w. concat (map (couple_coloc (partition_intersections intersects w))
                      (users_couples to_list (partition_intersections intersects w))))
             parts))"
    using get_colocations_Inr [OF parts] by (simp add: df_coloc_def)
  have 2: "\<forall>w \<in> set parts.
             distinct (users_couples to_list (partition_intersections intersects w))
           \<and> set (users_couples to_list (partition_intersections intersects w))
               = (\<lambda>e. (uid_1 e, uid_2 e)) ` set (partition_intersections intersects w)"
    using users_couples_distinct [OF assms(1)] users_couples_set [OF assms(1)] by blast
  have 3: "(\<forall>r \<in> set data. int64 (sampletimestamp r))
            \<and> max_stp data - min_stp data < 2 ^ 53 \<and> max_stp data + 150 < 2 ^ 63
          \<longrightarrow> parts =
                map (\<lambda>i. filter (\<lambda>r. min_stp data + int i * 150 \<le> sampletimestamp r
                                   \<and> sampletimestamp r \<le> min_stp data + int i * 150 + 150) data)
                  [0..<nat ((max_stp data - min_stp data) div 150 + 1)]"
  proof
    assume h: "(\<forall>r \<in> set data. int64 (sampletimestamp r))
            \<and> max_stp data - min_stp data < 2 ^ 53 \<and> max_stp data + 150 < 2 ^ 63"
    have e: "dataframe_split data 150 =
           Inr (map (\<lambda>(lo, hi). filter (\<lambda>r. lo \<le> sampletimestamp r \<and> sampletimestamp r \<le> hi) data)
                  (window_bounds (nat ((max_stp data - min_stp data) div 150 + 1)) (min_stp data) 150))"
      using assms(2) h by (intro dataframe_split_exact(1)) simp_all
    have b: "window_bounds (nat ((max_stp data - min_stp data) div 150 + 1)) (min_stp data) 150 =
           map (\<lambda>i. (min_stp data + int i * 150, min_stp data + int i * 150 + 150))
             [0..<nat ((max_stp data - min_stp data) div 150 + 1)]"
      using assms(2) h by (intro dataframe_split_exact(2)) simp_all
    show "parts =
                map (\<lambda>i. filter (\<lambda>r. min_stp data + int i * 150 \<le> sampletimestamp r
                                   \<and> sampletimestamp r \<le> min_stp data + int i * 150 + 150) data)
                  [0..<nat ((max_stp data - min_stp data) div 150 + 1)]"
      using parts unfolding e b by (simp add: comp_def)
  qed
  from parts 1 2 3 show ?thesis by blast
qed

theorem get_colocations_order_witness:
  "set_iteration ascending_iteration \<and> [row 0 0 0, row 2 1 0, row 1 2 0] \<noteq> []
   \<and> dataframe_split [row 0 0 0, row 2 1 0, row 1 2 0] 150 = Inr [[row 0 0 0, row 2 1 0, row 1 2 0]]
   \<and> users_couples ascending_iteration (partition_intersections (=) [row 0 0 0, row 2 1 0, row 1 2 0])
       = [(0, 1), (0, 2), (2, 1)]
   \<and> get_colocations ascending_iteration (=) [row 0 0 0, row 2 1 0, row 1 2 0] =
       Inr (concat (map (couple_coloc (partition_intersections (=) [row 0 0 0, row 2 1 0, row 1 2 0]))
                      [(0, 1), (0, 2), (2, 1)]))"
proof -
  have h1: "set_iteration ascending_iteration" by (rule set_iteration_ascending)
  have h2: "[row 0 0 0, row 2 1 0, row 1 2 0] \<noteq> []" by simp
  have c: "users_couples ascending_iteration (partition_intersections (=) [row 0 0 0, row 2 1 0, row 1 2 0])
       = [(0, 1), (0, 2), (2, 1)]"
    by (simp add: users_couples_def ex3_partition_intersections ascending_iteration_def)
  obtain parts where p: "dataframe_split [row 0 0 0, row 2 1 0, row 1 2 0] 150 = Inr parts"
    "get_colocations ascending_iteration (=) [row 0 0 0, row 2 1 0, row 1 2 0] =
           Inr (concat (map
             (\<lambda>w. concat (map (couple_coloc (partition_intersections (=) w))
                      (users_couples ascending_iteration (partition_intersections (=) w))))
             parts))"
    using get_colocations_order [OF h1 h2, of "(=)"] by blast
  have "parts = [[row 0 0 0, row 2 1 0, row 1 2 0]]" using p(1) by (simp add: ex3_dataframe_split)
  then have "get_colocations ascending_iteration (=) [row 0 0 0, row 2 1 0, row 1 2 0] =
       Inr (concat (map (couple_coloc (partition_intersections (=) [row 0 0 0, row 2 1 0, row 1 2 0]))
                      [(0, 1), (0, 2), (2, 1)]))"
    using p(2) by (simp add: c)
  then show ?thesis using h1 h2 c ex3_dataframe_split by blast
qed

section \<open>Overlap of communication areas\<close>

lemma sq: "(x::complex) ^ (2 * n) = (x ^ n)\<^sup>2"
  by (simp add: power_mult mult.commute)

lemma D2: "(Complex 3 4)\<^sup>2 = Complex (- 7) 24"
  by (simp add: power2_eq_square complex_eq_iff)
lemma D4: "(Complex 3 4) ^ 4 = Complex (- 527) (- 336)"
  using sq [of "Complex 3 4" 2] by (simp add: D2) (simp add: power2_eq_square complex_eq_iff)
lemma D8: "(Complex 3 4) ^ 8 = Complex 164833 354144"
  using sq [of "Complex 3 4" 4] by (simp add: D4) (simp add: power2_eq_square complex_eq_iff)
lemma D16: "(Complex 3 4) ^ 16 = Complex (- 98248054847) 116749235904"
  using sq [of "Complex 3 4" 8] by (simp add: D8) (simp add: power2_eq_square complex_eq_iff)
lemma D32: "(Complex 3 4) ^ 32 = Complex (- 3977703802948722503807) (- 22940770664883067253376)"
  using sq [of "Complex 3 4" 16] by (simp add: D16) (simp add: power2_eq_square complex_eq_iff)
lemma D64: "Im ((Complex 3 4) ^ 64) = 182503181432559739767250904458105698387204864"
  using sq [of "Complex 3 4" 32] by (simp add: D32) (simp add: power2_eq_square)

lemma cmod_vertex [simp]: "cmod (vertex k) = 1"
  by (simp add: vertex_def)

lemma vertex_pow64: "vertex k ^ 64 = 1"
proof -
  have "vertex k ^ 64 = cis (real 64 * (2 * pi * real k / 64))"
    unfolding vertex_def by (rule DeMoivre)
  also have "real 64 * (2 * pi * real k / 64) = 2 * pi * real k" by simp
  also have "2 * pi * real k = real (2 * k) * pi" by simp
  also have "cis (real (2 * k) * pi) = 1"
    by (simp only: complex_eq_iff cis.sel cos_npi sin_npi) simp
  finally show ?thesis .
qed

lemma vertex_not_345: "vertex k \<noteq> Complex (3 / 5) (4 / 5)" "vertex k \<noteq> - Complex (3 / 5) (4 / 5)"
proof -
  have s: "Complex 3 4 = 5 * Complex (3 / 5) (4 / 5)" by (simp add: complex_eq_iff)
  have ne: "Complex (3 / 5) (4 / 5) ^ 64 \<noteq> 1"
  proof
    assume "Complex (3 / 5) (4 / 5) ^ 64 = 1"
    then have "Complex 3 4 ^ 64 = 5 ^ 64" unfolding s by (simp only: power_mult_distrib) simp
    then have "Im (Complex 3 4 ^ 64) = Im (5 ^ 64)" by simp
    then show False unfolding D64 by simp
  qed
  show "vertex k \<noteq> Complex (3 / 5) (4 / 5)" using ne vertex_pow64 [of k] by auto
  have "(- Complex (3 / 5) (4 / 5)) ^ 64 = Complex (3 / 5) (4 / 5) ^ 64" by simp
  then show "vertex k \<noteq> - Complex (3 / 5) (4 / 5)" using ne vertex_pow64 [of k] by metis
qed

lemma unit_inner_less:
  assumes "cmod v = 1" "cmod d = 1" "v \<noteq> d"
  shows "Re (v * cnj d) < 1"
proof -
  have "0 < (cmod (v - d))\<^sup>2" using assms(3) by simp
  also have "(cmod (v - d))\<^sup>2 = (cmod v)\<^sup>2 + (cmod d)\<^sup>2 - 2 * Re (v * cnj d)"
    unfolding cmod_power2 by (simp add: power2_eq_square algebra_simps)
  finally show ?thesis using assms(1,2) by simp
qed

lemma unit_inner_greater:
  assumes "cmod v = 1" "cmod d = 1" "v \<noteq> - d"
  shows "- 1 < Re (v * cnj d)"
proof -
  have "Re (v * cnj (- d)) < 1" using assms by (intro unit_inner_less) simp_all
  then show ?thesis by simp
qed

lemma buffer_in_disk:
  assumes "p \<in> shapely_buffer c r"
  shows "cmod (p - c) \<le> r"
proof -
  have r: "0 < r" using assms by (auto simp: shapely_buffer_def split: if_splits)
  obtain w where w: "\<forall>k<64. 0 \<le> w k" "(\<Sum>k<64. w k) = 1"
    and p: "p = c + of_real r * (\<Sum>k<64. of_real (w k) * vertex k)"
    using assms r by (auto simp: shapely_buffer_def)
  have "cmod (\<Sum>k<64. of_real (w k) * vertex k) \<le> (\<Sum>k<64. cmod (of_real (w k) * vertex k))"
    by (rule norm_sum)
  also have "\<dots> = (\<Sum>k<64. w k)"
    using w(1) by (intro sum.cong refl) (simp add: norm_mult)
  finally have "cmod (\<Sum>k<64. of_real (w k) * vertex k) \<le> 1" using w(2) by simp
  then have "r * cmod (\<Sum>k<64. of_real (w k) * vertex k) \<le> r * 1"
    using r by (intro mult_left_mono) simp_all
  then show ?thesis using r by (simp add: p norm_mult)
qed

lemma intersects_dist:
  assumes "shapely_intersects (shapely_buffer c1 r1) (shapely_buffer c2 r2)"
  shows "dist c1 c2 \<le> r1 + r2"
proof -
  obtain p where p: "p \<in> shapely_buffer c1 r1" "p \<in> shapely_buffer c2 r2"
    using assms by (auto simp: shapely_intersects_def)
  have "dist c1 c2 \<le> dist c1 p + dist p c2" by (rule dist_triangle)
  also have "dist c1 p = cmod (p - c1)" by (simp add: dist_norm norm_minus_commute)
  also have "dist p c2 = cmod (p - c2)" by (simp add: dist_norm)
  finally show ?thesis using buffer_in_disk [OF p(1)] buffer_in_disk [OF p(2)] by linarith
qed

lemma buffer_nonempty:
  assumes "0 < r"
  shows "c + of_real r \<in> shapely_buffer c r"
proof -
  define w :: "nat \<Rightarrow> real" where "w k = (if k = 0 then 1 else 0)" for k
  have 1: "\<forall>k<64. 0 \<le> w k" by (simp add: w_def)
  have 2: "(\<Sum>k<64. w k) = 1" by (simp add: w_def)
  have "(\<Sum>k<(64::nat). of_real (w k) * vertex k) = (\<Sum>k<(64::nat). if k = 0 then vertex 0 else 0)"
    by (intro sum.cong refl) (simp add: w_def)
  also have "\<dots> = vertex 0" by simp
  also have "vertex 0 = 1" by (simp add: vertex_def)
  finally have 3: "c + of_real r = c + of_real r * (\<Sum>k<64. of_real (w k) * vertex k)" by simp
  show ?thesis using assms 1 2 3 unfolding shapely_buffer_def by auto
qed

lemma intersects_same_centre: "0 < r \<Longrightarrow> shapely_intersects (shapely_buffer c r) (shapely_buffer c r)"
  using buffer_nonempty [of r c] by (auto simp: shapely_intersects_def)

lemma convex_sum_less:
  fixes w x :: "nat \<Rightarrow> real"
  assumes w: "\<forall>k<n. 0 \<le> w k" "(\<Sum>k<n. w k) = 1" and x: "\<forall>k<n. x k < b"
  shows "(\<Sum>k<n. w k * x k) < b"
proof -
  have "\<exists>k<n. 0 < w k"
  proof (rule ccontr)
    assume "\<not> (\<exists>k<n. 0 < w k)"
    then have "\<forall>k<n. w k = 0" using w(1) by (metis less_eq_real_def)
    then have "(\<Sum>k<n. w k) = 0" by simp
    then show False using w(2) by simp
  qed
  then obtain j where j: "j < n" "0 < w j" by blast
  have "(\<Sum>k<n. w k * x k) < (\<Sum>k<n. w k * b)"
  proof (rule sum_strict_mono_ex1)
    show "finite {..<n}" by simp
    show "\<forall>k\<in>{..<n}. w k * x k \<le> w k * b"
    proof
      fix k assume "k \<in> {..<n}"
      then have "0 \<le> w k" "x k \<le> b" using w(1) x by (simp_all add: less_imp_le)
      then show "w k * x k \<le> w k * b" by (rule mult_left_mono [rotated])
    qed
    show "\<exists>k\<in>{..<n}. w k * x k < w k * b"
      using j x by (intro bexI [of _ j]) (simp_all add: mult_strict_left_mono)
  qed
  also have "(\<Sum>k<n. w k * b) = (\<Sum>k<n. w k) * b" by (simp add: sum_distrib_right)
  finally show ?thesis using w(2) by simp
qed

lemma convex_sum_greater:
  fixes w x :: "nat \<Rightarrow> real"
  assumes w: "\<forall>k<n. 0 \<le> w k" "(\<Sum>k<n. w k) = 1" and x: "\<forall>k<n. b < x k"
  shows "b < (\<Sum>k<n. w k * x k)"
proof -
  have "(\<Sum>k<n. w k * (- x k)) < - b"
    using w by (rule convex_sum_less) (use x in simp)
  then show ?thesis by (simp add: sum_negf)
qed

lemma buffer_projection:
  assumes "p \<in> shapely_buffer c r"
  obtains w where "\<forall>k<64. 0 \<le> w k" "(\<Sum>k<64. w k) = 1"
    "Re ((p - c) * cnj d) = r * (\<Sum>k<64. w k * Re (vertex k * cnj d))" "0 < r"
proof -
  have r: "0 < r" using assms by (auto simp: shapely_buffer_def split: if_splits)
  obtain w where w: "\<forall>k<64. 0 \<le> w k" "(\<Sum>k<64. w k) = 1"
    and p: "p = c + of_real r * (\<Sum>k<64. of_real (w k) * vertex k)"
    using assms r by (auto simp: shapely_buffer_def)
  have "(p - c) * cnj d = of_real r * (\<Sum>k<64. of_real (w k) * (vertex k * cnj d))"
    by (simp add: p sum_distrib_right mult.assoc)
  then have "Re ((p - c) * cnj d) = r * (\<Sum>k<64. w k * Re (vertex k * cnj d))"
    by (simp add: Re_sum)
  then show ?thesis using w r that by blast
qed

lemma tangent_buffers_disjoint:
  "\<not> shapely_intersects (shapely_buffer (Complex 0 0) 5) (shapely_buffer (Complex 6 8) 5)"
proof
  assume "shapely_intersects (shapely_buffer (Complex 0 0) 5) (shapely_buffer (Complex 6 8) 5)"
  then obtain p where p1: "p \<in> shapely_buffer (Complex 0 0) 5" and p2: "p \<in> shapely_buffer (Complex 6 8) 5"
    by (auto simp: shapely_intersects_def)
  define d where "d = Complex (3 / 5) (4 / 5)"
  have "(cmod d)\<^sup>2 = 1" unfolding cmod_power2 by (simp add: d_def power2_eq_square)
  then have d1: "cmod d = 1" using norm_ge_zero [of d] by (auto simp: power2_eq_1_iff)
  have lt: "\<forall>k<64. Re (vertex k * cnj d) < 1"
    using unit_inner_less [OF cmod_vertex d1] vertex_not_345(1) unfolding d_def by blast
  have gt: "\<forall>k<64. - 1 < Re (vertex k * cnj d)"
    using unit_inner_greater [OF cmod_vertex d1] vertex_not_345(2) unfolding d_def by blast
  from p1 obtain w where w: "\<forall>k<64. 0 \<le> w k" "(\<Sum>k<64. w k) = 1"
    "Re ((p - Complex 0 0) * cnj d) = 5 * (\<Sum>k<64. w k * Re (vertex k * cnj d))" "(0::real) < 5"
    by (rule buffer_projection)
  have z: "Complex 0 0 = 0" by (simp add: Complex_eq_0)
  have "(\<Sum>k<64. w k * Re (vertex k * cnj d)) < 1" using w(1,2) lt by (rule convex_sum_less)
  then have "Re ((p - Complex 0 0) * cnj d) < 5" unfolding w(3) by simp
  then have a: "Re (p * cnj d) < 5" unfolding z by simp
  from p2 obtain w' where w': "\<forall>k<64. 0 \<le> w' k" "(\<Sum>k<64. w' k) = 1"
    "Re ((p - Complex 6 8) * cnj d) = 5 * (\<Sum>k<64. w' k * Re (vertex k * cnj d))" "(0::real) < 5"
    by (rule buffer_projection)
  have "- 1 < (\<Sum>k<64. w' k * Re (vertex k * cnj d))" using w'(1,2) gt by (rule convex_sum_greater)
  then have "- 5 < Re ((p - Complex 6 8) * cnj d)" unfolding w'(3) by simp
  moreover have "Re ((p - Complex 6 8) * cnj d) = Re (p * cnj d) - 10"
    by (simp add: d_def algebra_simps)
  ultimately have b: "5 < Re (p * cnj d)" by simp
  from a b show False by simp
qed

lemma sum_delta_vertex:
  "(\<Sum>k<(64::nat). of_real (if k = a then x else 0) * vertex k) = (if a < 64 then of_real x * vertex a else 0)"
proof -
  have "(\<Sum>k<(64::nat). of_real (if k = a then x else 0) * vertex k)
      = (\<Sum>k<(64::nat). if k = a then of_real x * vertex a else 0)"
    by (intro sum.cong refl) simp
  then show ?thesis by (simp add: sum.delta)
qed

lemma sum_delta_weight:
  "(\<Sum>k<(64::nat). (if k = a then x else 0)) = (if a < 64 then x else (0::real))"
  by (simp add: sum.delta)

lemma vertex_axes:
  "vertex 0 = 1" "vertex 16 = \<i>" "vertex 32 = - 1" "vertex 48 = - \<i>"
proof -
  show "vertex 0 = 1" by (simp add: vertex_def)
  have "2 * pi * real 16 / 64 = pi / 2" by simp
  then show "vertex 16 = \<i>" unfolding vertex_def by (simp only: cis_pi_half)
  have "2 * pi * real 32 / 64 = pi" by simp
  then show "vertex 32 = - 1" unfolding vertex_def by (simp only: cis_pi)
  have "2 * pi * real 48 / 64 = 3 / 2 * pi" by simp
  then show "vertex 48 = - \<i>" unfolding vertex_def
    by (simp only: complex_eq_iff cis.sel cos_3over2_pi sin_3over2_pi) simp
qed

lemma four_vertex_point:
  assumes r: "0 < r" and w: "0 \<le> w0" "0 \<le> w1" "0 \<le> w2" "0 \<le> w3" "w0 + w1 + w2 + w3 = 1"
  shows "c + of_real r * Complex (w0 - w2) (w1 - w3) \<in> shapely_buffer c r"
proof -
  define w :: "nat \<Rightarrow> real" where
    "w k = (if k = 0 then w0 else 0) + (if k = 16 then w1 else 0)
         + (if k = 32 then w2 else 0) + (if k = 48 then w3 else 0)" for k
  have 1: "\<forall>k<64. 0 \<le> w k" using w by (simp add: w_def)
  have 2: "(\<Sum>k<64. w k) = 1"
    unfolding w_def sum.distrib sum_delta_weight using w(5) by simp
  have "(\<Sum>k<64. of_real (w k) * vertex k)
      = of_real w0 * vertex 0 + of_real w1 * vertex 16 + of_real w2 * vertex 32 + of_real w3 * vertex 48"
    unfolding w_def of_real_add distrib_right sum.distrib sum_delta_vertex by simp
  also have "\<dots> = Complex (w0 - w2) (w1 - w3)"
    unfolding vertex_axes by (simp add: complex_eq_iff)
  finally have 3: "c + of_real r * Complex (w0 - w2) (w1 - w3)
      = c + of_real r * (\<Sum>k<64. of_real (w k) * vertex k)" by simp
  show ?thesis using r 1 2 3 unfolding shapely_buffer_def by auto
qed

lemma buffers_share_point:
  "shapely_intersects (shapely_buffer (Complex 0 0) 5) (shapely_buffer (Complex 3 4) 5)"
proof -
  have "Complex 0 0 + of_real 5 * Complex (3 / 8 - 3 / 40) (19 / 40 - 3 / 40) \<in> shapely_buffer (Complex 0 0) 5"
    by (rule four_vertex_point) simp_all
  moreover have "Complex 0 0 + of_real 5 * Complex (3 / 8 - 3 / 40) (19 / 40 - 3 / 40) = Complex (3 / 2) 2"
    by (simp add: complex_eq_iff)
  ultimately have a: "Complex (3 / 2) 2 \<in> shapely_buffer (Complex 0 0) 5" by simp
  have "Complex 3 4 + of_real 5 * Complex (3 / 40 - 3 / 8) (3 / 40 - 19 / 40) \<in> shapely_buffer (Complex 3 4) 5"
    by (rule four_vertex_point) simp_all
  moreover have "Complex 3 4 + of_real 5 * Complex (3 / 40 - 3 / 8) (3 / 40 - 19 / 40) = Complex (3 / 2) 2"
    by (simp add: complex_eq_iff)
  ultimately have b: "Complex (3 / 2) 2 \<in> shapely_buffer (Complex 3 4) 5" by simp
  from a b show ?thesis by (auto simp: shapely_intersects_def)
qed

lemma shapely_intersects_commute: "shapely_intersects a b \<longleftrightarrow> shapely_intersects b a"
  by (auto simp: shapely_intersects_def)

lemma place_simps [simp]:
  "user_id (place u x y t a) = u" "sampletimestamp (place u x y t a) = t"
  "latitude (place u x y t a) = x" "longitude (place u x y t a) = y"
  "short_range_communication_area (place u x y t a) = a"
  "centre (place u x y t a) = Complex x y"
  by (simp_all add: place_def centre_def)

lemma add_area_place:
  "add_short_range_communication_area dst [place u x y t a, place u' x' y' t' a'] =
     [place u x y t (shapely_buffer (Complex x y) (real_of_int dst / 100000)),
      place u' x' y' t' (shapely_buffer (Complex x' y') (real_of_int dst / 100000))]"
  by (simp add: add_short_range_communication_area_def place_def centre_def)

lemma added_area:
  assumes "r \<in> set (add_short_range_communication_area dst data)"
  shows "short_range_communication_area r = shapely_buffer (centre r) (real_of_int dst / 100000)"
  using assms by (auto simp: add_short_range_communication_area_def centre_def)

lemma two_places_split:
  "dataframe_split [place 0 x y 0 a, place 1 x' y' 0 b] 150 = Inr [[place 0 x y 0 a, place 1 x' y' 0 b]]"
proof -
  have m: "min_stp [place 0 x y 0 a, place 1 x' y' 0 b] = 0" "max_stp [place 0 x y 0 a, place 1 x' y' 0 b] = 0"
    by (simp_all add: min_stp_def max_stp_def)
  have "int_truediv 0 150 = Inr (0 div 150)" by (rule int_truediv_exact) simp_all
  then have "df_s [place 0 x y 0 a, place 1 x' y' 0 b] 150 = Inr 1"
    by (simp add: df_s_def m wrap64_def)
  then show ?thesis
    by (simp add: dataframe_split_def m in_window_def wrap64_def)
qed

lemma two_places_intersections:
  "partition_intersections intersects [place 0 x y 0 a, place 1 x' y' 0 b] =
     (if intersects a b
      then [\<lparr>uid_1 = 0, timestamp_uid_1 = 0, uid_2 = 1, timestamp_uid_2 = 0\<rparr>] else [])"
  by (simp add: partition_intersections_def df_dfs_def intersection_row_def)

text \<open>
  C2, as stated, fails: the communication areas are polygons, not disks. Two users at
  \<open>(0, 0)\<close> and \<open>(6, 8)\<close> at the same instant, with \<open>dst = 500000\<close>, that is the radius
  \<open>5\<close>: the distance between the centres is \<open>10\<close>, the sum of the radii, but the direction
  from one centre to the other passes between two vertices of the polygons, which do
  not meet; no overlap event is produced.
\<close>

theorem tangent_areas_counterexample:
  "get_intersections shapely_intersects
     (add_short_range_communication_area 500000 [place 0 0 0 0 (), place 1 6 8 0 ()]) = Inr [[]]
   \<and> dist (centre (place 0 0 0 0 ())) (centre (place 1 6 8 0 ())) =
       real_of_int 500000 / 100000 + real_of_int 500000 / 100000"
proof -
  have "(cmod (Complex 6 8))\<^sup>2 = 10\<^sup>2" unfolding cmod_power2 by simp
  then have "cmod (Complex 6 8) = 10" by (simp only: power2_eq_iff_nonneg norm_ge_zero)
  then have d: "dist (Complex 0 0) (Complex 6 8) = 10"
    by (simp add: dist_norm Complex_eq_0 [THEN iffD2] norm_minus_commute)
  have "get_intersections shapely_intersects
     (add_short_range_communication_area 500000 [place 0 0 0 0 (), place 1 6 8 0 ()]) = Inr [[]]"
    using tangent_buffers_disjoint
    by (simp add: add_area_place get_intersections_def two_places_split two_places_intersections)
  then show ?thesis using d by simp
qed

text \<open>
  C2, amended. In every window whose rows carry the areas added by
  \<open>add_short_range_communication_area\<close>, for two rows of distinct users: if their areas,
  the 64-sided polygons inscribed in the circles of radius \<open>dst / 100000\<close> about their
  points, intersect, an overlap event of the two rows is produced, oriented by the order
  in which the users are found; and every overlap event produced is that of two rows
  of distinct users whose polygons intersect, so whose centres are no further apart
  than the sum of the radii. A distance within the sum of the radii alone does not give
  an event.
\<close>

theorem overlap_event_iff_areas_intersect:
  fixes data :: "(real, 'g) trace list" and w :: "(real, complex set) trace list"
  assumes "set w \<subseteq> set (add_short_range_communication_area dst data)"
    and "i \<in> set w" and "j \<in> set w" and "user_id i \<noteq> user_id j"
  shows "(shapely_intersects (shapely_buffer (centre i) (real_of_int dst / 100000))
                             (shapely_buffer (centre j) (real_of_int dst / 100000))
            \<longrightarrow> intersection_row i j \<in> set (partition_intersections shapely_intersects w)
              \<or> intersection_row j i \<in> set (partition_intersections shapely_intersects w))
       \<and> (\<forall>e \<in> set (partition_intersections shapely_intersects w).
            \<exists>i' \<in> set w. \<exists>j' \<in> set w.
              e = intersection_row i' j' \<and> user_id i' \<noteq> user_id j'
            \<and> shapely_intersects (shapely_buffer (centre i') (real_of_int dst / 100000))
                                  (shapely_buffer (centre j') (real_of_int dst / 100000))
            \<and> dist (centre i') (centre j') \<le> real_of_int dst / 100000 + real_of_int dst / 100000)"
proof (intro conjI impI ballI)
  have area: "\<And>r. r \<in> set w \<Longrightarrow>
      short_range_communication_area r = shapely_buffer (centre r) (real_of_int dst / 100000)"
    using assms(1) added_area by blast
  {
    assume "shapely_intersects (shapely_buffer (centre i) (real_of_int dst / 100000))
                               (shapely_buffer (centre j) (real_of_int dst / 100000))"
    then have "shapely_intersects (short_range_communication_area i) (short_range_communication_area j)"
      "shapely_intersects (short_range_communication_area j) (short_range_communication_area i)"
      using area [OF assms(2)] area [OF assms(3)] shapely_intersects_commute by simp_all
    then show "intersection_row i j \<in> set (partition_intersections shapely_intersects w)
              \<or> intersection_row j i \<in> set (partition_intersections shapely_intersects w)"
      using assms(2,3,4) by (intro intersection_complete)
  }
  fix e assume "e \<in> set (partition_intersections shapely_intersects w)"
  then obtain i' j' :: "(real, complex set) trace" and k l
    where ij: "i' \<in> set w" "j' \<in> set w" "e = intersection_row i' j'"
      "shapely_intersects (short_range_communication_area i') (short_range_communication_area j')"
      and kl: "k < l" "l < length (unique (map user_id w))"
      "unique (map user_id w) ! k = user_id i'" "unique (map user_id w) ! l = user_id j'"
    unfolding in_partition_intersections by blast
  have "unique (map user_id w) ! k \<noteq> unique (map user_id w) ! l"
    using kl(1,2) by (intro distinct_nth_neq) simp_all
  then have ne: "user_id i' \<noteq> user_id j'" unfolding kl(3,4) .
  have int: "shapely_intersects (shapely_buffer (centre i') (real_of_int dst / 100000))
                                (shapely_buffer (centre j') (real_of_int dst / 100000))"
    using ij(4) area [OF ij(1)] area [OF ij(2)] by simp
  then have "dist (centre i') (centre j') \<le> real_of_int dst / 100000 + real_of_int dst / 100000"
    by (rule intersects_dist)
  then show "\<exists>i' \<in> set w. \<exists>j' \<in> set w.
              e = intersection_row i' j' \<and> user_id i' \<noteq> user_id j'
            \<and> shapely_intersects (shapely_buffer (centre i') (real_of_int dst / 100000))
                                  (shapely_buffer (centre j') (real_of_int dst / 100000))
            \<and> dist (centre i') (centre j') \<le> real_of_int dst / 100000 + real_of_int dst / 100000"
    using ij(1,2,3) ne int by blast
qed

theorem overlap_event_iff_areas_intersect_witness:
  "add_short_range_communication_area 500000 [place 0 0 0 0 (), place 1 3 4 0 ()] =
     [place 0 0 0 0 (shapely_buffer (Complex 0 0) 5), place 1 3 4 0 (shapely_buffer (Complex 3 4) 5)]
   \<and> shapely_intersects (shapely_buffer (Complex 0 0) 5) (shapely_buffer (Complex 3 4) 5)
   \<and> partition_intersections shapely_intersects
       [place 0 0 0 0 (shapely_buffer (Complex 0 0) 5), place 1 3 4 0 (shapely_buffer (Complex 3 4) 5)]
       = [\<lparr>uid_1 = 0, timestamp_uid_1 = 0, uid_2 = 1, timestamp_uid_2 = 0\<rparr>]"
proof -
  let ?i = "place 0 0 0 0 (shapely_buffer (Complex 0 0) 5)"
  let ?j = "place 1 3 4 0 (shapely_buffer (Complex 3 4) 5)"
  have h1: "set [?i, ?j] \<subseteq> set (add_short_range_communication_area 500000 [place 0 0 0 0 (), place 1 3 4 0 ()])"
    by (simp add: add_area_place)
  have h2: "?i \<in> set [?i, ?j]" and h3: "?j \<in> set [?i, ?j]" by simp_all
  have h4: "user_id ?i \<noteq> user_id ?j" by simp
  have int: "shapely_intersects (shapely_buffer (Complex 0 0) 5) (shapely_buffer (Complex 3 4) 5)"
    by (rule buffers_share_point)
  have "intersection_row ?i ?j \<in> set (partition_intersections shapely_intersects [?i, ?j])
      \<or> intersection_row ?j ?i \<in> set (partition_intersections shapely_intersects [?i, ?j])"
    using overlap_event_iff_areas_intersect [OF h1 h2 h3 h4] int by simp
  then have "partition_intersections shapely_intersects [?i, ?j]
       = [\<lparr>uid_1 = 0, timestamp_uid_1 = 0, uid_2 = 1, timestamp_uid_2 = 0\<rparr>]"
    using int by (simp add: two_places_intersections)
  moreover have "add_short_range_communication_area 500000 [place 0 0 0 0 (), place 1 3 4 0 ()] = [?i, ?j]"
    by (simp add: add_area_place)
  ultimately show ?thesis using int by blast
qed

end
